theory Spec2Isabelle
  imports Complex_Main
begin

section \<open>The coin kiosk: annotation store, renderer, interaction and camera\<close>

text \<open>
  A shallow embedding of \<^verbatim>\<open>src/main.ts\<close> (class \<^verbatim>\<open>CoinKiosk\<close>). JavaScript numbers
  are modelled as reals where the code computes with coordinates and progress, and as
  integers where the code uses them as array indices or reads the clock. Strings are Isabelle strings. What the code
  obtains from the rendering library by ray casting, and what the orbit controls do to the
  camera, are parameters of the handlers that ask for them. Objects that the code mutates
  in place or holds in two places have an identity: the \<^verbatim>\<open>Vector3\<close> of a record's position
  lives in a store, and every scene object carries an identifier. The elements of the page
  that the handlers look up by id are taken to exist. A handler that throws leaves the
  state it had reached, and its result is \<open>Inl\<close> of the error and that state.
\<close>

subsection \<open>Vectors (the part of the library's \<^verbatim>\<open>Vector3\<close> that the code calls)\<close>

datatype Vector3 = Vector3 (vx: real) (vy: real) (vz: real)

datatype Vector2 = Vector2 (mx: real) (my: real)

definition lengthSq :: "Vector3 \<Rightarrow> real" where
  "lengthSq v = vx v * vx v + vy v * vy v + vz v * vz v"

definition length_v :: "Vector3 \<Rightarrow> real" where
  "length_v v = sqrt (lengthSq v)"

definition multiplyScalar :: "Vector3 \<Rightarrow> real \<Rightarrow> Vector3" where
  "multiplyScalar v s = Vector3 (vx v * s) (vy v * s) (vz v * s)"

definition normalize :: "Vector3 \<Rightarrow> Vector3" where
  \<comment> \<open>\<^verbatim>\<open>divideScalar(length() || 1)\<close>, and \<^verbatim>\<open>divideScalar(s)\<close> multiplies by \<^verbatim>\<open>1 / s\<close>\<close>
  "normalize v = multiplyScalar v (1 / (if length_v v = 0 then 1 else length_v v))"

definition add_v :: "Vector3 \<Rightarrow> Vector3 \<Rightarrow> Vector3" where
  "add_v a b = Vector3 (vx a + vx b) (vy a + vy b) (vz a + vz b)"

definition subVectors :: "Vector3 \<Rightarrow> Vector3 \<Rightarrow> Vector3" where
  "subVectors a b = Vector3 (vx a - vx b) (vy a - vy b) (vz a - vz b)"

definition crossVectors :: "Vector3 \<Rightarrow> Vector3 \<Rightarrow> Vector3" where
  "crossVectors a b =
     Vector3 (vy a * vz b - vz a * vy b)
             (vz a * vx b - vx a * vz b)
             (vx a * vy b - vy a * vx b)"

definition lerpVectors :: "Vector3 \<Rightarrow> Vector3 \<Rightarrow> real \<Rightarrow> Vector3" where
  "lerpVectors v1 v2 alpha =
     Vector3 (vx v1 + (vx v2 - vx v1) * alpha)
             (vy v1 + (vy v2 - vy v1) * alpha)
             (vz v1 + (vz v2 - vz v1) * alpha)"

text \<open>
  The orientation that \<^verbatim>\<open>marker.lookAt(target)\<close> gives an object that is neither a camera
  nor a light and has no parent: the library builds the rotation whose axes are computed
  from the direction \<^verbatim>\<open>target - position\<close> and the up vector \<^verbatim>\<open>(0, 1, 0)\<close>. The three
  axes stand for the rotation.
\<close>

type_synonym orientation = "Vector3 \<times> Vector3 \<times> Vector3"

definition DEFAULT_UP :: Vector3 where
  "DEFAULT_UP = Vector3 0 1 0"

definition identity_orientation :: orientation where
  "identity_orientation = (Vector3 1 0 0, Vector3 0 1 0, Vector3 0 0 1)"

definition Matrix4_lookAt :: "Vector3 \<Rightarrow> Vector3 \<Rightarrow> Vector3 \<Rightarrow> orientation" where
  "Matrix4_lookAt eye target up =
     (let z0 = subVectors eye target;
          z1 = normalize (if lengthSq z0 = 0 then Vector3 (vx z0) (vy z0) 1 else z0);
          x1 = crossVectors up z1;
          z2 = (if lengthSq x1 = 0
                then normalize (if \<bar>vz up\<bar> = 1
                                then Vector3 (vx z1 + 0.0001) (vy z1) (vz z1)
                                else Vector3 (vx z1) (vy z1) (vz z1 + 0.0001))
                else z1);
          x2 = (if lengthSq x1 = 0 then crossVectors up z2 else x1);
          x3 = normalize x2;
          y3 = crossVectors z2 x3
      in (x3, y3, z2))"

definition lookAt :: "Vector3 \<Rightarrow> Vector3 \<Rightarrow> orientation" where
  \<comment> \<open>\<^verbatim>\<open>object.lookAt(target)\<close> for an object at \<open>pos\<close>\<close>
  "lookAt pos target = Matrix4_lookAt target pos DEFAULT_UP"

subsection \<open>Strings\<close>

definition isWhiteSpace :: "char \<Rightarrow> bool" where
  \<comment> \<open>the white space and line terminators of JavaScript among the first 256 code units\<close>
  "isWhiteSpace c = ((of_char c :: nat) \<in> {9, 10, 11, 12, 13, 32, 160})"

definition trim :: "string \<Rightarrow> string" where
  "trim s = rev (dropWhile isWhiteSpace (rev (dropWhile isWhiteSpace s)))"

fun string_of_nat :: "nat \<Rightarrow> string" where
  "string_of_nat n =
     (if n < 10 then [char_of (48 + n)]
      else string_of_nat (n div 10) @ [char_of (48 + n mod 10)])"

declare string_of_nat.simps [simp del]

subsection \<open>Arrays indexed by a JavaScript number\<close>

definition lookup :: "'a list \<Rightarrow> int \<Rightarrow> 'a option" where
  \<comment> \<open>\<^verbatim>\<open>xs[i]\<close>: \<^verbatim>\<open>undefined\<close> outside the array\<close>
  "lookup xs i = (if 0 \<le> i \<and> i < int (length xs) then Some (xs ! nat i) else None)"

definition splice :: "'a list \<Rightarrow> int \<Rightarrow> int \<Rightarrow> 'a list" where
  \<comment> \<open>\<^verbatim>\<open>xs.splice(start, deleteCount)\<close>: a negative start counts from the end\<close>
  "splice xs start deleteCount =
     (let len = int (length xs);
          actualStart = (if start < 0 then max (len + start) 0 else min start len);
          actualDeleteCount = min (max deleteCount 0) (len - actualStart)
      in take (nat actualStart) xs @ drop (nat (actualStart + actualDeleteCount)) xs)"

subsection \<open>Data model\<close>

datatype error = TypeError

datatype geometry =
    RingGeometry real real nat
  | BoxGeometry real real real
  | ConeGeometry real real nat
  | CylinderGeometry real real real nat
  | SphereGeometry real nat nat
  | BufferGeometry "Vector3 list"
  | NoGeometry

datatype object_kind = MeshKind | LineKind | OtherKind

record CSS2DObject =
  label_id :: nat
  titleText :: string
  descriptionText :: string
  labelPosition :: Vector3

text \<open>
  A child of the scene. \<open>isAnnotationMarker\<close> and \<open>annotationIndex\<close> are the two
  \<^verbatim>\<open>userData\<close> entries the code writes and reads (a missing entry is \<open>False\<close>, \<open>None\<close>);
  \<open>oid\<close> is the identity of the object.
\<close>

record Object3D =
  oid :: nat
  kind :: object_kind
  obj_geometry :: geometry
  materialColor :: string
  obj_position :: Vector3
  obj_orientation :: orientation
  isAnnotationMarker :: bool
  annotationIndex :: "int option"
  children :: "CSS2DObject list"

text \<open>
  An annotation record. \<open>position\<close> is the address of the record's \<^verbatim>\<open>Vector3\<close> object in
  the store \<open>vectors\<close> of the state: the drag handler mutates that object in place.
  \<open>description\<close> is \<open>None\<close> when the field holds \<^verbatim>\<open>undefined\<close>. \<open>marker\<close> and \<open>mesh\<close> are
  the identities of the label and the 3D marker of the last render.
\<close>

record annotation =
  position :: nat
  label :: string
  description :: "string option"
  color :: string
  shape :: string
  marker :: "nat option"
  mesh :: "nat option"

record edit_form =
  editLabel :: string
  editColor :: string
  editShape :: string

record animation =
  startPosition :: Vector3
  startTarget :: Vector3
  targetPosition :: Vector3
  targetLookAt :: Vector3
  startTime :: int

record kiosk =
  scene :: "Object3D list"
  cameraPosition :: Vector3
  controlsTarget :: Vector3
  controlsEnabled :: bool
  annotations :: "annotation list"
  vectors :: "nat \<Rightarrow> Vector3"
  nextAddr :: nat
  currentEditIndex :: "int option"
  isDragging :: bool
  draggedAnnotationIndex :: "int option"
  mouse :: Vector2
  annotationList :: "(nat \<times> string) list"
  modalTitle :: string
  modalOpen :: bool
  form :: edit_form
  saveListeners :: nat
  cancelListeners :: nat
  pendingAnimations :: "animation list"
  labelElements :: "nat list"

subsection \<open>Annotation renderer\<close>

definition make_marker :: "Vector3 \<Rightarrow> (nat \<Rightarrow> Vector3) \<Rightarrow> nat \<Rightarrow> nat \<Rightarrow> annotation \<Rightarrow> Object3D" where
  "make_marker cam heap n index a =
     (let offset = multiplyScalar (normalize (heap (position a))) 2.5;
          lbl = \<lparr> label_id = n + 2,
                  titleText = label a,
                  descriptionText = (case description a of None \<Rightarrow> [] | Some d \<Rightarrow> d),
                  labelPosition = offset \<rparr>
      in \<lparr> oid = n,
           kind = MeshKind,
           obj_geometry = RingGeometry 0.03 0.04 32,
           materialColor = color a,
           obj_position = heap (position a),
           obj_orientation = lookAt (heap (position a)) cam,
           isAnnotationMarker = True,
           annotationIndex = Some (int index),
           children = [lbl] \<rparr>)"

definition make_line :: "(nat \<Rightarrow> Vector3) \<Rightarrow> nat \<Rightarrow> annotation \<Rightarrow> Object3D" where
  "make_line heap n a =
     (let labelOffset = multiplyScalar (normalize (heap (position a))) 2.5
      in \<lparr> oid = n + 1,
           kind = LineKind,
           obj_geometry = BufferGeometry [heap (position a), labelOffset],
           materialColor = color a,
           obj_position = Vector3 0 0 0,
           obj_orientation = identity_orientation,
           isAnnotationMarker = True,
           annotationIndex = None,
           children = [] \<rparr>)"

text \<open>
  The body of \<^verbatim>\<open>annotations.forEach\<close>: for the records from \<open>index\<close> on it returns the
  records with their new handles, the objects added to the scene in order, and the next
  free identity.
\<close>

fun renderEach ::
  "Vector3 \<Rightarrow> (nat \<Rightarrow> Vector3) \<Rightarrow> nat \<Rightarrow> nat \<Rightarrow> annotation list
     \<Rightarrow> annotation list \<times> Object3D list \<times> nat" where
  "renderEach cam heap n index [] = ([], [], n)"
| "renderEach cam heap n index (a # as) =
     (case renderEach cam heap (n + 3) (Suc index) as of
        (as', objs, n') \<Rightarrow>
          (a\<lparr>mesh := Some n, marker := Some (n + 2)\<rparr> # as',
           make_marker cam heap n index a # make_line heap n a # objs,
           n'))"

definition updateAnnotationList :: "kiosk \<Rightarrow> kiosk" where
  "updateAnnotationList s =
     s\<lparr>annotationList := zip [0 ..< length (annotations s)] (map label (annotations s))\<rparr>"

definition renderAnnotations :: "kiosk \<Rightarrow> kiosk" where
  "renderAnnotations s =
     (case renderEach (cameraPosition s) (vectors s) (nextAddr s) 0 (annotations s) of
        (as', objs, n') \<Rightarrow>
          updateAnnotationList
            (s\<lparr>scene := filter (\<lambda>child. \<not> isAnnotationMarker child) (scene s) @ objs,
               annotations := as',
               nextAddr := n'\<rparr>))"

definition getMarkerGeometry :: "string \<Rightarrow> geometry" where
  "getMarkerGeometry shp =
     (let size = 0.05 in
      if shp = ''cube'' then BoxGeometry (size * 2) (size * 2) (size * 2)
      else if shp = ''cone'' then ConeGeometry size (size * 2) 16
      else if shp = ''cylinder'' then CylinderGeometry size size (size * 2) 16
      else SphereGeometry size 16 16)"

subsection \<open>Annotation store\<close>

definition addAnnotation :: "string \<Rightarrow> nat \<Rightarrow> string \<Rightarrow> string \<Rightarrow> string \<Rightarrow> kiosk \<Rightarrow> kiosk" where
  "addAnnotation lbl pos col shp desc s =
     renderAnnotations
       (s\<lparr>annotations := annotations s @
            [\<lparr> position = pos, label = lbl, description = Some desc, color = col,
               shape = shp, marker = None, mesh = None \<rparr>]\<rparr>)"

definition updateAnnotation ::
  "int \<Rightarrow> string \<Rightarrow> nat \<Rightarrow> string \<Rightarrow> string \<Rightarrow> string option \<Rightarrow> kiosk \<Rightarrow> kiosk" where
  "updateAnnotation index lbl pos col shp desc s =
     (case lookup (annotations s) index of
        None \<Rightarrow> s
      | Some a \<Rightarrow>
          renderAnnotations
            (s\<lparr>annotations := (annotations s)
                 [nat index := a\<lparr>label := lbl, position := pos, color := col,
                                 shape := shp, description := desc\<rparr>]\<rparr>))"

definition deleteAnnotation :: "int \<Rightarrow> kiosk \<Rightarrow> kiosk" where
  "deleteAnnotation index s =
     renderAnnotations (s\<lparr>annotations := splice (annotations s) index 1\<rparr>)"

subsection \<open>Interaction controller\<close>

text \<open>
  A mouse event as the handlers read it: the pointer's client coordinates, and the size of
  the window when the handler runs.
\<close>

record mouse_event =
  clientX :: real
  clientY :: real
  innerWidth :: real
  innerHeight :: real

definition pointer :: "mouse_event \<Rightarrow> Vector2" where
  "pointer ev =
     Vector2 ((clientX ev / innerWidth ev) * 2 - 1) (- (clientY ev / innerHeight ev) * 2 + 1)"

text \<open>
  Ray casting is the library's: \<open>intersectObjects\<close> returns, nearest first, the objects
  among the given ones that the ray through the pointer hits, and \<open>intersectObject\<close>
  returns, nearest first, the points where the ray hits a mesh with the given geometry at
  the given place.
\<close>

type_synonym intersectObjects = "Vector2 \<Rightarrow> Object3D list \<Rightarrow> Object3D list"

type_synonym intersectObject = "Vector2 \<Rightarrow> geometry \<times> Vector3 \<Rightarrow> Vector3 list"

definition proxySphere :: "geometry \<times> Vector3" where
  "proxySphere = (SphereGeometry 1.5 32 32, Vector3 0 0 0)"

definition onMouseDown :: "mouse_event \<Rightarrow> intersectObjects \<Rightarrow> kiosk \<Rightarrow> kiosk" where
  "onMouseDown ev rc s =
     (case currentEditIndex s of
        None \<Rightarrow> s
      | Some cur \<Rightarrow>
          (let s1 = s\<lparr>mouse := pointer ev\<rparr>;
               intersects = rc (mouse s1) (filter isAnnotationMarker (scene s1))
           in case intersects of
                [] \<Rightarrow> s1
              | obj # _ \<Rightarrow>
                  if annotationIndex obj = Some cur
                  then s1\<lparr>isDragging := True,
                          draggedAnnotationIndex := currentEditIndex s1,
                          controlsEnabled := False\<rparr>
                  else s1))"

definition onMouseMove :: "mouse_event \<Rightarrow> intersectObject \<Rightarrow> kiosk \<Rightarrow> (error \<times> kiosk) + kiosk" where
  "onMouseMove ev rc s =
     (if \<not> isDragging s then Inr s
      else case draggedAnnotationIndex s of
        None \<Rightarrow> Inr s
      | Some d \<Rightarrow>
          (let s1 = s\<lparr>mouse := pointer ev\<rparr>;
               intersects = rc (mouse s1) proxySphere
           in case intersects of
                [] \<Rightarrow> Inr s1
              | newPosition # _ \<Rightarrow>
                  (case lookup (annotations s1) d of
                     None \<Rightarrow> Inl (TypeError, s1)
                   | Some a \<Rightarrow>
                       (let s2 = s1\<lparr>vectors := (vectors s1)(position a := newPosition)\<rparr>;
                            s3 = (case mesh a of
                                    None \<Rightarrow> s2
                                  | Some m \<Rightarrow>
                                      s2\<lparr>scene :=
                                           map (\<lambda>obj. if oid obj = m
                                                      then obj\<lparr>obj_position := newPosition\<rparr>
                                                      else obj)
                                               (scene s2)\<rparr>)
                        in Inr (renderAnnotations s3)))))"

definition onMouseUp :: "kiosk \<Rightarrow> kiosk" where
  "onMouseUp s =
     (if isDragging s
      then s\<lparr>isDragging := False, draggedAnnotationIndex := None, controlsEnabled := True\<rparr>
      else s)"

definition openEditModal :: "int \<Rightarrow> kiosk \<Rightarrow> (error \<times> kiosk) + kiosk" where
  "openEditModal index s =
     (let s1 = s\<lparr>currentEditIndex := Some index\<rparr>
      in case lookup (annotations s1) index of
           None \<Rightarrow> Inl (TypeError, s1\<lparr>modalTitle := ''Add Annotation''\<rparr>)
         | Some a \<Rightarrow>
             Inr (s1\<lparr>modalTitle := ''Edit Annotation'',
                     form := \<lparr> editLabel = label a, editColor = color a, editShape = shape a \<rparr>,
                     modalOpen := True,
                     saveListeners := Suc (saveListeners s1),
                     cancelListeners := Suc (cancelListeners s1)\<rparr>))"

definition closeEditModal :: "kiosk \<Rightarrow> kiosk" where
  "closeEditModal s = s\<lparr>modalOpen := False, currentEditIndex := None\<rparr>"

definition saveEdit :: "kiosk \<Rightarrow> (error \<times> kiosk) + kiosk" where
  "saveEdit s =
     (case currentEditIndex s of
        None \<Rightarrow> Inr s
      | Some cur \<Rightarrow>
          (let lbl = trim (editLabel (form s))
           in case lookup (annotations s) cur of
                None \<Rightarrow> Inl (TypeError, s)
              | Some a \<Rightarrow>
                  Inr (closeEditModal
                         (updateAnnotation cur lbl (position a) (editColor (form s))
                            (editShape (form s)) None s))))"

definition addNewAnnotation :: "kiosk \<Rightarrow> (error \<times> kiosk) + kiosk" where
  "addNewAnnotation s =
     (let addr = nextAddr s;
          s1 = s\<lparr>vectors := (vectors s)(addr := Vector3 0 0.2 1), nextAddr := Suc addr\<rparr>;
          lbl = ''Annotation '' @ string_of_nat (length (annotations s1) + 1);
          s2 = addAnnotation lbl addr ''#8b7ba8'' ''sphere''
                 ''Add your annotation description here.'' s1
      in openEditModal (int (length (annotations s2)) - 1) s2)"

subsection \<open>Label renderer\<close>

text \<open>
  The labels are drawn by the library's label renderer, which keeps the element of a label
  under its own element of the page. \<^verbatim>\<open>labelRenderer.render(scene, camera)\<close> walks the
  scene graph and appends the element of every label it meets that is not there yet. The
  library takes an element out only when its label is told that it was removed (by
  \<^verbatim>\<open>remove\<close> on the parent), which an assignment to \<^verbatim>\<open>scene.children\<close> does not do.
  \<open>labelElements\<close> lists the elements on the page, each by the identity of its label.
\<close>

definition scene_labels :: "kiosk \<Rightarrow> CSS2DObject list" where
  \<comment> \<open>the labels in the scene graph\<close>
  "scene_labels s = concat (map children (scene s))"

definition labelRenderer_render :: "kiosk \<Rightarrow> kiosk" where
  "labelRenderer_render s =
     s\<lparr>labelElements :=
         labelElements s
         @ remdups (filter (\<lambda>i. i \<notin> set (labelElements s)) (map label_id (scene_labels s)))\<rparr>"

subsection \<open>Camera animator\<close>

text \<open>
  \<open>controls.update()\<close> belongs to the orbit controls of the library: it may move the camera
  and the look-at target, and is a parameter here.
\<close>

type_synonym controls_update = "Vector3 \<times> Vector3 \<Rightarrow> Vector3 \<times> Vector3"

definition update_controls :: "controls_update \<Rightarrow> kiosk \<Rightarrow> kiosk" where
  "update_controls upd s =
     (case upd (cameraPosition s, controlsTarget s) of
        (p, t) \<Rightarrow> s\<lparr>cameraPosition := p, controlsTarget := t\<rparr>)"

definition duration :: real where
  "duration = 1000"

definition eased :: "real \<Rightarrow> real" where
  "eased progress =
     (if progress < 0.5 then 2 * progress * progress
      else - 1 + (4 - 2 * progress) * progress)"

definition progress_at :: "animation \<Rightarrow> int \<Rightarrow> real" where
  "progress_at a now = min (real_of_int (now - startTime a) / duration) 1"

text \<open>
  One run of the closure \<^verbatim>\<open>animate\<close> of \<^verbatim>\<open>animateCameraTo\<close> at time \<open>now\<close>; an animation
  that has not reached progress 1 asks for the next frame.
\<close>

definition animate_camera :: "controls_update \<Rightarrow> int \<Rightarrow> animation \<Rightarrow> kiosk \<Rightarrow> kiosk" where
  "animate_camera upd now a s =
     (let progress = progress_at a now;
          e = eased progress;
          s1 = update_controls upd
                 (s\<lparr>cameraPosition := lerpVectors (startPosition a) (targetPosition a) e,
                    controlsTarget := lerpVectors (startTarget a) (targetLookAt a) e\<rparr>)
      in if progress < 1 then s1\<lparr>pendingAnimations := pendingAnimations s1 @ [a]\<rparr> else s1)"

definition animateCameraTo ::
  "Vector3 \<Rightarrow> Vector3 \<Rightarrow> int \<Rightarrow> int \<Rightarrow> controls_update \<Rightarrow> kiosk \<Rightarrow> kiosk" where
  \<comment> \<open>\<open>t0\<close> and \<open>t1\<close> are the two readings of the clock: at the start, and in the first run of the closure\<close>
  "animateCameraTo pos look t0 t1 upd s =
     animate_camera upd t1
       \<lparr> startPosition = cameraPosition s, startTarget = controlsTarget s,
         targetPosition = pos, targetLookAt = look, startTime = t0 \<rparr> s"

definition focusOnAnnotation :: "int \<Rightarrow> int \<Rightarrow> int \<Rightarrow> controls_update \<Rightarrow> kiosk \<Rightarrow> kiosk" where
  "focusOnAnnotation index t0 t1 upd s =
     (if index \<ge> 0 \<and> index < int (length (annotations s))
      then (let a = annotations s ! nat index;
                targetPos = vectors s (position a);
                offset = Vector3 2 1.5 2;
                cameraTarget = add_v targetPos offset
            in animateCameraTo cameraTarget targetPos t0 t1 upd s)
      else s)"

definition animationFrame :: "controls_update \<Rightarrow> int \<Rightarrow> kiosk \<Rightarrow> kiosk" where
  \<comment> \<open>one display frame: the main loop's callback (it updates the controls and renders the
      scene and the labels), then the pending camera animations in order\<close>
  "animationFrame upd now s =
     fold (animate_camera upd now) (pendingAnimations s)
       (labelRenderer_render (update_controls upd (s\<lparr>pendingAnimations := []\<rparr>)))"

subsection \<open>The application: constructor and events\<close>

definition other_object :: "nat \<Rightarrow> Vector3 \<Rightarrow> Object3D" where
  \<comment> \<open>a light, the loaded model, the fallback coin or its wireframe: no \<^verbatim>\<open>userData\<close>\<close>
  "other_object n p =
     \<lparr> oid = n, kind = OtherKind, obj_geometry = NoGeometry, materialColor = [],
       obj_position = p, obj_orientation = identity_orientation,
       isAnnotationMarker = False, annotationIndex = None, children = [] \<rparr>"

definition initial_fields :: kiosk where
  \<comment> \<open>the fields as the constructor sets them, with the four lights in the scene\<close>
  "initial_fields =
     \<lparr> scene = [other_object 0 (Vector3 0 0 0), other_object 1 (Vector3 5 5 5),
                other_object 2 (Vector3 (- 5) 0 (- 5)), other_object 3 (Vector3 0 (- 5) 0)],
       cameraPosition = Vector3 5 3 5,
       controlsTarget = Vector3 0 0 0,
       controlsEnabled = True,
       annotations = [],
       vectors = (\<lambda>_. Vector3 0 0 0),
       nextAddr = 4,
       currentEditIndex = None,
       isDragging = False,
       draggedAnnotationIndex = None,
       mouse = Vector2 0 0,
       annotationList = [],
       modalTitle = [],
       modalOpen = False,
       form = \<lparr> editLabel = [], editColor = [], editShape = [] \<rparr>,
       saveListeners = 0,
       cancelListeners = 0,
       pendingAnimations = [],
       labelElements = [] \<rparr>"

definition inscription :: "nat \<Rightarrow> annotation" where
  "inscription addr =
     \<lparr> position = addr, label = ''Imperial Inscription'',
       description = Some ''The Latin inscription names the emperor and asserts his authority, functioning as both identification and propaganda.'',
       color = ''#8b7ba8'', shape = ''sphere'', marker = None, mesh = None \<rparr>"

definition setupAnnotations :: "kiosk \<Rightarrow> kiosk" where
  "setupAnnotations s =
     (let addr = nextAddr s;
          s1 = s\<lparr>vectors := (vectors s)(addr := Vector3 0.9 0.05 0.2), nextAddr := Suc addr\<rparr>
      in renderAnnotations (s1\<lparr>annotations := [inscription addr]\<rparr>))"

text \<open>
  The state in which the constructor starts the main loop. The first run of the loop's
  body, which the constructor calls itself, is the first \<open>Frame\<close> event of a run.
\<close>

definition new_CoinKiosk :: kiosk where
  "new_CoinKiosk = setupAnnotations initial_fields"

definition add_to_scene :: "Vector3 \<Rightarrow> kiosk \<Rightarrow> kiosk" where
  "add_to_scene p s =
     s\<lparr>scene := scene s @ [other_object (nextAddr s) p], nextAddr := Suc (nextAddr s)\<rparr>"

definition settle :: "(error \<times> kiosk) + kiosk \<Rightarrow> kiosk" where
  \<comment> \<open>the state a handler leaves, whether it returned or threw\<close>
  "settle r = (case r of Inl (e, s) \<Rightarrow> s | Inr s \<Rightarrow> s)"

datatype event =
    ModelLoaded
  | ModelFailed
  | ClickAdd
  | MouseDown mouse_event intersectObjects
  | MouseMove mouse_event intersectObject
  | MouseUp
  | Input edit_form
  | ClickSave
  | ClickCancel
  | ClickListItem int int int controls_update
  | LockPosition bool
  | Frame int controls_update

fun step :: "event \<Rightarrow> kiosk \<Rightarrow> kiosk" where
  "step ModelLoaded s = add_to_scene (Vector3 0 0 0) s"
| "step ModelFailed s = add_to_scene (Vector3 0 0 0) (add_to_scene (Vector3 0 0 0) s)"
| "step ClickAdd s = settle (addNewAnnotation s)"
| "step (MouseDown ev rc) s = onMouseDown ev rc s"
| "step (MouseMove ev rc) s = settle (onMouseMove ev rc s)"
| "step MouseUp s = onMouseUp s"
| "step (Input f) s = s\<lparr>form := f\<rparr>"
| "step ClickSave s = ((\<lambda>s'. settle (saveEdit s')) ^^ saveListeners s) s"
| "step ClickCancel s = (closeEditModal ^^ cancelListeners s) s"
| "step (ClickListItem index t0 t1 upd) s = focusOnAnnotation index t0 t1 upd s"
| "step (LockPosition checked) s = s\<lparr>controlsEnabled := \<not> checked\<rparr>"
| "step (Frame now upd) s = animationFrame upd now s"

definition run :: "event list \<Rightarrow> kiosk" where
  "run es = fold step es new_CoinKiosk"

subsection \<open>Observations of a state\<close>

definition annotation_visuals :: "kiosk \<Rightarrow> Object3D list" where
  \<comment> \<open>the children of the scene that carry the annotation tag\<close>
  "annotation_visuals s = filter isAnnotationMarker (scene s)"

definition is_marker :: "Object3D \<Rightarrow> bool" where
  "is_marker obj = (isAnnotationMarker obj \<and> kind obj = MeshKind)"

definition markers :: "kiosk \<Rightarrow> Object3D list" where
  "markers s = filter is_marker (scene s)"

definition untagged_labels :: "kiosk \<Rightarrow> CSS2DObject list" where
  \<comment> \<open>the labels attached to scene objects that do not carry the annotation tag\<close>
  "untagged_labels s =
     concat (map children (filter (\<lambda>child. \<not> isAnnotationMarker child) (scene s)))"

definition fields ::
  "(nat \<Rightarrow> Vector3) \<Rightarrow> annotation \<Rightarrow> Vector3 \<times> string \<times> string option \<times> string \<times> string" where
  \<comment> \<open>the five data fields of a record, the position read through the store\<close>
  "fields heap a = (heap (position a), label a, description a, color a, shape a)"

definition anonymous :: "Object3D \<Rightarrow> Object3D" where
  \<comment> \<open>an object without the identities: what is to be seen of it\<close>
  "anonymous obj = obj\<lparr>oid := 0, children := map (\<lambda>l. l\<lparr>label_id := 0\<rparr>) (children obj)\<rparr>"

definition without_orientation :: "Object3D \<Rightarrow> Object3D" where
  "without_orientation obj = obj\<lparr>obj_orientation := identity_orientation\<rparr>"

definition rendered :: "kiosk \<Rightarrow> Object3D list" where
  \<comment> \<open>the annotation visuals that a re-render from state \<open>s\<close> produces\<close>
  "rendered s = map anonymous (annotation_visuals (renderAnnotations s))"

datatype store_op =
    Add string nat string string string
  | Update int string nat string string "string option"
  | Delete int

fun apply_op :: "store_op \<Rightarrow> kiosk \<Rightarrow> kiosk" where
  "apply_op (Add lbl pos col shp desc) s = addAnnotation lbl pos col shp desc s"
| "apply_op (Update index lbl pos col shp desc) s = updateAnnotation index lbl pos col shp desc s"
| "apply_op (Delete index) s = deleteAnnotation index s"

definition counts_ok :: "kiosk \<Rightarrow> bool" where
  "counts_ok s = (length (markers s) = length (annotations s))"

definition anim0 :: animation where
  "anim0 = \<lparr> startPosition = Vector3 5 3 5, startTarget = Vector3 0 0 0,
             targetPosition = Vector3 2.9 1.55 2.2, targetLookAt = Vector3 0.9 0.05 0.2,
             startTime = 100 \<rparr>"

definition store_ok :: "kiosk \<Rightarrow> bool" where
  \<comment> \<open>no two records share a position object, and every position object has been allocated\<close>
  "store_ok s =
     (distinct (map position (annotations s))
      \<and> (\<forall>p \<in> set (map position (annotations s)). p < nextAddr s))"

subsection \<open>Concrete states and inputs\<close>

definition camera_in_front :: kiosk where
  "camera_in_front = new_CoinKiosk\<lparr>cameraPosition := Vector3 0.9 0.05 2.2\<rparr>"

definition camera_at_side :: kiosk where
  "camera_at_side = new_CoinKiosk\<lparr>cameraPosition := Vector3 2.9 0.05 0.2\<rparr>"

definition gate_form :: edit_form where
  "gate_form = \<lparr> editLabel = '' Gate '', editColor = ''#ff0000'', editShape = ''cube'' \<rparr>"

definition centre_click :: mouse_event where
  "centre_click = \<lparr> clientX = 400, clientY = 300, innerWidth = 800, innerHeight = 600 \<rparr>"

definition hits_second_marker :: intersectObjects where
  \<comment> \<open>a ray that hits the marker of the record at index 1 and nothing else\<close>
  "hits_second_marker m objs = filter (\<lambda>obj. annotationIndex obj = Some 1) objs"

definition hits_sphere_front :: intersectObject where
  \<comment> \<open>a ray that meets the proxy sphere first at \<open>(0, 0, 1.5)\<close>\<close>
  "hits_sphere_front m sphere = [Vector3 0 0 1.5, Vector3 0 0 (- 1.5)]"

definition hits_first_marker :: intersectObjects where
  \<comment> \<open>a ray that hits the marker of the record at index 0 and nothing else\<close>
  "hits_first_marker m objs = filter (\<lambda>obj. annotationIndex obj = Some 0) objs"

definition drag_started :: "event list" where
  \<comment> \<open>a new annotation is added, which opens the editor on it, and its marker is pressed\<close>
  "drag_started = [ClickAdd, MouseDown centre_click hits_second_marker]"

definition editing_gate :: "event list" where
  "editing_gate = [ClickAdd, Input gate_form]"

definition add_between_frames :: "event list" where
  \<comment> \<open>a frame is drawn, an annotation is added, and the next frame is drawn; the orbit
      controls leave the camera alone\<close>
  "add_between_frames = [Frame 0 (\<lambda>c. c), ClickAdd, Frame 16 (\<lambda>c. c)]"

section \<open>Properties\<close>

subsection \<open>The renderer\<close>

lemma renderEach_Cons:
  "renderEach cam h n i (a # as) =
     (a\<lparr>mesh := Some n, marker := Some (n + 2)\<rparr> # fst (renderEach cam h (n + 3) (Suc i) as),
      make_marker cam h n i a # make_line h n a # fst (snd (renderEach cam h (n + 3) (Suc i) as)),
      snd (snd (renderEach cam h (n + 3) (Suc i) as)))"
  by (simp split: prod.splits)

lemmas renderEach_unfold = renderEach.simps(1) renderEach_Cons

declare renderEach.simps [simp del]

lemma renderEach_length:
  "length (fst (renderEach cam h n i as)) = length as"
  by (induction as arbitrary: n i) (simp_all add: renderEach_unfold)

lemma renderEach_next:
  "snd (snd (renderEach cam h n i as)) = n + 3 * length as"
  by (induction as arbitrary: n i) (simp_all add: renderEach_unfold)

lemma renderEach_tagged:
  "filter isAnnotationMarker (fst (snd (renderEach cam h n i as))) =
   fst (snd (renderEach cam h n i as))"
  by (induction as arbitrary: n i) (simp_all add: renderEach_unfold make_marker_def make_line_def)

lemma renderEach_markers_length:
  "length (filter is_marker (fst (snd (renderEach cam h n i as)))) = length as"
  by (induction as arbitrary: n i)
     (simp_all add: renderEach_unfold make_marker_def make_line_def is_marker_def)

lemma renderEach_labels_length:
  "length (concat (map children (fst (snd (renderEach cam h n i as))))) = length as"
  by (induction as arbitrary: n i) (simp_all add: renderEach_unfold make_marker_def make_line_def)

lemma renderEach_fields:
  "map (fields h') (fst (renderEach cam h n i as)) = map (fields h') as"
  by (induction as arbitrary: n i) (simp_all add: renderEach_unfold fields_def)

lemma renderEach_position:
  "map position (fst (renderEach cam h n i as)) = map position as"
  by (induction as arbitrary: n i) (simp_all add: renderEach_unfold)

lemma renderEach_marker_nth:
  "j < length as \<Longrightarrow>
   filter is_marker (fst (snd (renderEach cam h n i as))) ! j =
   make_marker cam h (n + 3 * j) (i + j) (as ! j)"
proof (induction as arbitrary: n i j)
  case Nil
  then show ?case by simp
next
  case (Cons a as)
  have m: "is_marker (make_marker cam h n i a)" "\<not> is_marker (make_line h n a)"
    by (simp_all add: is_marker_def make_marker_def make_line_def)
  show ?case
  proof (cases j)
    case 0
    then show ?thesis using m by (simp add: renderEach_unfold)
  next
    case (Suc k)
    then have "k < length as" using Cons.prems by simp
    from Cons.IH[OF this, of "n + 3" "Suc i"] Suc m show ?thesis
      by (simp add: renderEach_unfold algebra_simps)
  qed
qed

lemma filter_untagged_visuals:
  "filter isAnnotationMarker (filter (\<lambda>child. \<not> isAnnotationMarker child) xs) = []"
  by (induction xs) auto

lemma filter_untagged_markers:
  "filter (\<lambda>x. \<not> isAnnotationMarker x \<and> is_marker x) xs = []"
  by (induction xs) (auto simp: is_marker_def)

lemma renderAnnotations_alt:
  "renderAnnotations s =
     updateAnnotationList
       (s\<lparr>scene := filter (\<lambda>child. \<not> isAnnotationMarker child) (scene s)
                   @ fst (snd (renderEach (cameraPosition s) (vectors s) (nextAddr s) 0 (annotations s))),
          annotations := fst (renderEach (cameraPosition s) (vectors s) (nextAddr s) 0 (annotations s)),
          nextAddr := snd (snd (renderEach (cameraPosition s) (vectors s) (nextAddr s) 0 (annotations s)))\<rparr>)"
  by (simp add: renderAnnotations_def split: prod.splits)

lemma annotations_render:
  "annotations (renderAnnotations s) =
   fst (renderEach (cameraPosition s) (vectors s) (nextAddr s) 0 (annotations s))"
  by (simp add: renderAnnotations_alt updateAnnotationList_def)

lemma visuals_render:
  "annotation_visuals (renderAnnotations s) =
   fst (snd (renderEach (cameraPosition s) (vectors s) (nextAddr s) 0 (annotations s)))"
  using renderEach_tagged[of "cameraPosition s" "vectors s" "nextAddr s" 0 "annotations s"]
  by (simp add: annotation_visuals_def renderAnnotations_alt updateAnnotationList_def
      filter_untagged_visuals)

lemma markers_render:
  "markers (renderAnnotations s) =
   filter is_marker
     (fst (snd (renderEach (cameraPosition s) (vectors s) (nextAddr s) 0 (annotations s))))"
  by (simp add: markers_def renderAnnotations_alt updateAnnotationList_def
      filter_untagged_markers)

lemma vectors_render: "vectors (renderAnnotations s) = vectors s"
  by (simp add: renderAnnotations_alt updateAnnotationList_def)

lemma nextAddr_render:
  "nextAddr (renderAnnotations s) = nextAddr s + 3 * length (annotations s)"
  using renderEach_next[of "cameraPosition s" "vectors s" "nextAddr s" 0 "annotations s"]
  by (simp add: renderAnnotations_alt updateAnnotationList_def)

lemma length_annotations_render:
  "length (annotations (renderAnnotations s)) = length (annotations s)"
  by (simp add: annotations_render renderEach_length)

lemma counts_render: "counts_ok (renderAnnotations s)"
  by (simp add: counts_ok_def markers_render annotations_render
      renderEach_length renderEach_markers_length)

lemma annotations_new: "length (annotations new_CoinKiosk) = 1"
  by (simp add: new_CoinKiosk_def setupAnnotations_def Let_def annotations_render renderEach_length)

lemma new_annotations:
  "annotations new_CoinKiosk = [(inscription 4)\<lparr>mesh := Some 5, marker := Some 7\<rparr>]"
  by (simp add: new_CoinKiosk_def setupAnnotations_def initial_fields_def Let_def
      annotations_render renderEach_unfold)

lemma new_vectors: "vectors new_CoinKiosk 4 = Vector3 (9 / 10) (1 / 20) (1 / 5)"
  by (simp add: new_CoinKiosk_def setupAnnotations_def initial_fields_def Let_def vectors_render)

subsection \<open>The easing function\<close>

lemma eased_alt: "eased = (\<lambda>p. if p \<le> 1/2 then 2 * p * p else - 1 + (4 - 2 * p) * p)"
  by (rule ext) (auto simp: eased_def algebra_simps)

lemma eased_continuous: "continuous_on {0..1} eased"
proof -
  have "continuous_on ({0..1/2} \<union> {1/2..1})
          (\<lambda>p::real. if p \<le> 1/2 then 2 * p * p else - 1 + (4 - 2 * p) * p)"
    by (rule continuous_on_If) (auto intro!: continuous_intros simp: algebra_simps)
  moreover have "{0..1/2} \<union> {1/2..1} = {0..(1::real)}" by auto
  ultimately show ?thesis by (simp add: eased_alt)
qed

lemma eased_mono_first_half:
  assumes "0 \<le> p" "p \<le> q" "q \<le> 1/2"
  shows "eased p \<le> eased q"
proof -
  have "p * p \<le> q * q" using assms by (intro mult_mono) auto
  then show ?thesis using assms by (auto simp: eased_alt)
qed

lemma eased_mono_second_half:
  assumes "1/2 \<le> p" "p \<le> q" "q \<le> 1"
  shows "eased p \<le> eased q"
proof -
  have "eased q - eased p = (q - p) * (4 - 2 * (p + q))"
    using assms by (auto simp: eased_def algebra_simps)
  moreover have "0 \<le> (q - p) * (4 - 2 * (p + q))"
    using assms by (intro mult_nonneg_nonneg) auto
  ultimately show ?thesis by linarith
qed

lemma lerpVectors_0: "lerpVectors v1 v2 0 = v1"
  by (simp add: lerpVectors_def)

lemma lerpVectors_1: "lerpVectors v1 v2 1 = v2"
  by (simp add: lerpVectors_def)

lemma eased_0: "eased 0 = 0"
  by (simp add: eased_def)

lemma eased_1: "eased 1 = 1"
  by (simp add: eased_def)

text \<open>
  C9. The easing function is 0 at progress 0 and 1 at progress 1, so a run of the
  animation closure at progress 0 hands the start position and start target to the
  controls, and at progress 1 the target position and look-at point (the orbit controls
  taken to leave them alone); the function is continuous on the interval from 0 to 1 and
  does not decrease on either half of it.
\<close>

theorem eased_endpoints_continuous_monotone:
  "eased 0 = 0 \<and> eased 1 = 1
   \<and> (\<forall>a now s. progress_at a now = 0 \<longrightarrow>
         cameraPosition (animate_camera (\<lambda>c. c) now a s) = startPosition a
         \<and> controlsTarget (animate_camera (\<lambda>c. c) now a s) = startTarget a)
   \<and> (\<forall>a now s. progress_at a now = 1 \<longrightarrow>
         cameraPosition (animate_camera (\<lambda>c. c) now a s) = targetPosition a
         \<and> controlsTarget (animate_camera (\<lambda>c. c) now a s) = targetLookAt a)
   \<and> continuous_on {0..1} eased
   \<and> (\<forall>p q. 0 \<le> p \<and> p \<le> q \<and> q \<le> 1/2 \<longrightarrow> eased p \<le> eased q)
   \<and> (\<forall>p q. 1/2 \<le> p \<and> p \<le> q \<and> q \<le> 1 \<longrightarrow> eased p \<le> eased q)"
  using eased_continuous eased_mono_first_half eased_mono_second_half
  by (simp add: eased_0 eased_1 animate_camera_def update_controls_def Let_def
      lerpVectors_0 lerpVectors_1)

theorem eased_endpoints_continuous_monotone_witness:
  "progress_at anim0 100 = 0
   \<and> cameraPosition (animate_camera (\<lambda>c. c) 100 anim0 new_CoinKiosk) = Vector3 5 3 5
   \<and> progress_at anim0 1100 = 1
   \<and> cameraPosition (animate_camera (\<lambda>c. c) 1100 anim0 new_CoinKiosk) = Vector3 2.9 1.55 2.2
   \<and> eased (1/4) \<le> eased (1/2) \<and> eased (1/2) \<le> eased (3/4)"
proof -
  have p0: "progress_at anim0 100 = 0" and p1: "progress_at anim0 1100 = 1"
    by (simp_all add: progress_at_def anim0_def duration_def)
  note t = eased_endpoints_continuous_monotone
  have "cameraPosition (animate_camera (\<lambda>c. c) 100 anim0 new_CoinKiosk) = startPosition anim0"
    using t p0 by blast
  moreover have "cameraPosition (animate_camera (\<lambda>c. c) 1100 anim0 new_CoinKiosk) = targetPosition anim0"
    using t p1 by blast
  moreover have "eased (1/4) \<le> eased (1/2)" using t by simp
  moreover have "eased (1/2) \<le> eased (3/4)" using t by simp
  ultimately show ?thesis using p0 p1 by (simp add: anim0_def)
qed

subsection \<open>Focusing the camera\<close>

text \<open>
  C10. For an index outside the annotation array, \<open>focusOnAnnotation\<close> returns the state
  it was given: no animation is started, and the camera position and the look-at target
  of the orbit controls are unchanged.
\<close>

theorem focus_out_of_range_noop:
  "index < 0 \<or> int (length (annotations s)) \<le> index \<Longrightarrow>
   focusOnAnnotation index t0 t1 upd s = s"
  by (auto simp: focusOnAnnotation_def)

theorem focus_out_of_range_noop_witness:
  "int (length (annotations new_CoinKiosk)) \<le> 1
   \<and> focusOnAnnotation 1 0 0 (\<lambda>c. c) new_CoinKiosk = new_CoinKiosk
   \<and> focusOnAnnotation (- 1) 0 0 (\<lambda>c. c) new_CoinKiosk = new_CoinKiosk"
  using focus_out_of_range_noop[of 1 new_CoinKiosk 0 0 "\<lambda>c. c"]
        focus_out_of_range_noop[of "- 1" new_CoinKiosk 0 0 "\<lambda>c. c"]
  by (simp add: annotations_new)

subsection \<open>The add button and the editor\<close>

lemma render_keeps_controller:
  "currentEditIndex (renderAnnotations s) = currentEditIndex s"
  "isDragging (renderAnnotations s) = isDragging s"
  "draggedAnnotationIndex (renderAnnotations s) = draggedAnnotationIndex s"
  "saveListeners (renderAnnotations s) = saveListeners s"
  "cancelListeners (renderAnnotations s) = cancelListeners s"
  "form (renderAnnotations s) = form s"
  "cameraPosition (renderAnnotations s) = cameraPosition s"
  by (simp_all add: renderAnnotations_alt updateAnnotationList_def)

lemma addNewAnnotation_length:
  "length (annotations (settle (addNewAnnotation s))) = Suc (length (annotations s))"
  by (simp add: addNewAnnotation_def addAnnotation_def openEditModal_def Let_def settle_def
      length_annotations_render split: option.splits)

lemma addNewAnnotation_editor:
  "currentEditIndex (settle (addNewAnnotation s)) = Some (int (length (annotations s)))"
  by (simp add: addNewAnnotation_def addAnnotation_def openEditModal_def Let_def settle_def
      length_annotations_render split: option.splits)

lemma addNewAnnotation_listeners:
  "cancelListeners (settle (addNewAnnotation s)) = Suc (cancelListeners s)"
proof -
  let ?s2 = "addAnnotation (''Annotation '' @ string_of_nat (length (annotations s) + 1))
               (nextAddr s) ''#8b7ba8'' ''sphere'' ''Add your annotation description here.''
               (s\<lparr>vectors := (vectors s)(nextAddr s := Vector3 0 0.2 1), nextAddr := Suc (nextAddr s)\<rparr>)"
  have len: "length (annotations ?s2) = Suc (length (annotations s))"
    by (simp add: addAnnotation_def length_annotations_render)
  have c: "cancelListeners ?s2 = cancelListeners s"
    by (simp add: addAnnotation_def render_keeps_controller)
  have "lookup (annotations ?s2) (int (length (annotations ?s2)) - 1)
          = Some (annotations ?s2 ! length (annotations s))"
    unfolding lookup_def len by simp
  then have "cancelListeners (settle (openEditModal (int (length (annotations ?s2)) - 1) ?s2))
               = Suc (cancelListeners ?s2)"
    by (simp add: openEditModal_def Let_def settle_def)
  then show ?thesis using c by (simp add: addNewAnnotation_def Let_def)
qed

lemma addNewAnnotation_drag:
  "isDragging (settle (addNewAnnotation s)) = isDragging s
   \<and> draggedAnnotationIndex (settle (addNewAnnotation s)) = draggedAnnotationIndex s"
  by (simp add: addNewAnnotation_def addAnnotation_def openEditModal_def Let_def settle_def
      render_keeps_controller split: option.splits)

lemma marker_in_visuals:
  assumes "j < length (annotations s)"
  shows "\<exists>obj \<in> set (annotation_visuals (renderAnnotations s)). annotationIndex obj = Some (int j)"
proof -
  let ?objs = "fst (snd (renderEach (cameraPosition s) (vectors s) (nextAddr s) 0 (annotations s)))"
  have "filter is_marker ?objs ! j
          = make_marker (cameraPosition s) (vectors s) (nextAddr s + 3 * j) (0 + j) (annotations s ! j)"
    using assms by (rule renderEach_marker_nth)
  moreover have "filter is_marker ?objs ! j \<in> set (filter is_marker ?objs)"
    by (rule nth_mem) (simp add: renderEach_markers_length assms)
  ultimately have "make_marker (cameraPosition s) (vectors s) (nextAddr s + 3 * j) j (annotations s ! j)
                     \<in> set ?objs"
    by auto
  then show ?thesis
    unfolding visuals_render by (rule bexI[rotated]) (simp add: make_marker_def)
qed

lemma addNewAnnotation_marker:
  "\<exists>obj \<in> set (annotation_visuals (settle (addNewAnnotation s))).
      annotationIndex obj = Some (int (length (annotations s)))"
proof -
  have "\<exists>s0. length (annotations s0) = Suc (length (annotations s))
           \<and> annotation_visuals (settle (addNewAnnotation s)) = annotation_visuals (renderAnnotations s0)"
    by (rule exI[of _ "s\<lparr>vectors := (vectors s)(nextAddr s := Vector3 0 0.2 1),
                          nextAddr := Suc (nextAddr s),
                          annotations := annotations s @
                            [\<lparr> position = nextAddr s,
                               label = ''Annotation '' @ string_of_nat (length (annotations s) + 1),
                               description = Some ''Add your annotation description here.'',
                               color = ''#8b7ba8'', shape = ''sphere'', marker = None, mesh = None \<rparr>]\<rparr>"])
       (simp add: addNewAnnotation_def addAnnotation_def openEditModal_def Let_def settle_def
          annotation_visuals_def split: option.splits)
  then obtain s0 where l: "length (annotations s0) = Suc (length (annotations s))"
    and v: "annotation_visuals (settle (addNewAnnotation s)) = annotation_visuals (renderAnnotations s0)"
    by blast
  from marker_in_visuals[of "length (annotations s)" s0] l v show ?thesis by simp
qed

lemma onMouseDown_on_edited_marker:
  assumes "currentEditIndex s = Some c"
    and "\<exists>obj \<in> set (annotation_visuals s). annotationIndex obj = Some c"
  shows "isDragging (onMouseDown ev (\<lambda>m objs. filter (\<lambda>obj. annotationIndex obj = Some c) objs) s)
       \<and> draggedAnnotationIndex (onMouseDown ev (\<lambda>m objs. filter (\<lambda>obj. annotationIndex obj = Some c) objs) s) = Some c
       \<and> currentEditIndex (onMouseDown ev (\<lambda>m objs. filter (\<lambda>obj. annotationIndex obj = Some c) objs) s) = Some c
       \<and> cancelListeners (onMouseDown ev (\<lambda>m objs. filter (\<lambda>obj. annotationIndex obj = Some c) objs) s) = cancelListeners s
       \<and> annotations (onMouseDown ev (\<lambda>m objs. filter (\<lambda>obj. annotationIndex obj = Some c) objs) s) = annotations s"
proof -
  let ?hits = "filter (\<lambda>obj. annotationIndex obj = Some c) (filter isAnnotationMarker (scene s))"
  from assms(2) have "?hits \<noteq> []"
    by (auto simp: annotation_visuals_def filter_empty_conv)
  then obtain obj objs where h: "?hits = obj # objs" by (cases ?hits) auto
  then have "obj \<in> set ?hits" by simp
  then have "annotationIndex obj = Some c" by simp
  with h assms(1) show ?thesis
    by (simp add: onMouseDown_def Let_def)
qed

lemma closeEditModal_funpow:
  "isDragging ((closeEditModal ^^ n) s) = isDragging s
   \<and> draggedAnnotationIndex ((closeEditModal ^^ n) s) = draggedAnnotationIndex s
   \<and> currentEditIndex ((closeEditModal ^^ Suc n) s) = None"
  by (induction n) (simp_all add: closeEditModal_def)

lemma drag_started_facts:
  "isDragging (run drag_started)"
  "draggedAnnotationIndex (run drag_started) = Some 1"
  "currentEditIndex (run drag_started) = Some 1"
  "cancelListeners (run drag_started) = Suc (cancelListeners new_CoinKiosk)"
  "length (annotations (run drag_started)) = 2"
proof -
  let ?s1 = "settle (addNewAnnotation new_CoinKiosk)"
  have c: "currentEditIndex ?s1 = Some 1"
    by (simp add: addNewAnnotation_editor annotations_new)
  have m: "\<exists>obj \<in> set (annotation_visuals ?s1). annotationIndex obj = Some 1"
    using addNewAnnotation_marker[of new_CoinKiosk] by (simp add: annotations_new)
  have r: "run drag_started = onMouseDown centre_click (\<lambda>m objs. filter (\<lambda>obj. annotationIndex obj = Some 1) objs) ?s1"
    by (simp add: run_def drag_started_def hits_second_marker_def[abs_def])
  note f = onMouseDown_on_edited_marker[OF c m, of centre_click, folded r]
  from f show "isDragging (run drag_started)" by simp
  from f show "draggedAnnotationIndex (run drag_started) = Some 1" by simp
  from f show "currentEditIndex (run drag_started) = Some 1" by simp
  from f show "cancelListeners (run drag_started) = Suc (cancelListeners new_CoinKiosk)"
    by (simp add: addNewAnnotation_listeners)
  from f show "length (annotations (run drag_started)) = 2"
    by (simp add: addNewAnnotation_length annotations_new)
qed

lemma run_snoc: "run (es @ [e]) = step e (run es)"
  by (simp add: run_def)

subsection \<open>Visual counts\<close>

lemma counts_apply_op: "counts_ok s \<Longrightarrow> counts_ok (apply_op op s)"
  by (cases op)
     (auto simp: addAnnotation_def updateAnnotation_def deleteAnnotation_def counts_render
           split: option.splits)

lemma counts_fold: "counts_ok s \<Longrightarrow> counts_ok (fold apply_op ops s)"
  by (induction ops arbitrary: s) (auto simp: counts_apply_op)

text \<open>
  After any sequence of add, update and delete operations that starts in a state left by
  a re-render (the state the constructor leaves is one), the scene holds as many
  annotation-tagged marker meshes as the annotation array has records.
\<close>

theorem marker_count_follows_array:
  "length (markers (fold apply_op ops (renderAnnotations s0)))
     = length (annotations (fold apply_op ops (renderAnnotations s0)))"
  using counts_fold[OF counts_render, of ops s0] by (simp add: counts_ok_def)

subsection \<open>Labels on the page\<close>

lemma upt_Suc_shift: "[0..<Suc k] = 0 # map Suc [0..<k]"
  by (simp add: upt_conv_Cons map_Suc_upt del: upt_Suc)

lemma renderEach_label_ids:
  "map label_id (concat (map children (fst (snd (renderEach cam h n i as)))))
     = map (\<lambda>j. n + 3 * j + 2) [0..<length as]"
proof (induction as arbitrary: n i)
  case Nil
  then show ?case by (simp add: renderEach_unfold)
next
  case (Cons a as)
  have "map (\<lambda>j. n + 3 * j + 2) [0..<length (a # as)]
          = (n + 2) # map (\<lambda>j. (n + 3) + 3 * j + 2) [0..<length as]"
    by (simp add: upt_Suc_shift o_def algebra_simps del: upt_Suc)
  then show ?case using Cons.IH[of "n + 3" "Suc i"]
    by (simp add: renderEach_unfold make_marker_def make_line_def del: upt_Suc)
qed

lemma scene_render:
  "scene (renderAnnotations s) =
     filter (\<lambda>child. \<not> isAnnotationMarker child) (scene s)
     @ fst (snd (renderEach (cameraPosition s) (vectors s) (nextAddr s) 0 (annotations s)))"
  by (simp add: renderAnnotations_alt updateAnnotationList_def)

lemma untagged_labels_render: "untagged_labels (renderAnnotations s) = untagged_labels s"
  using renderEach_tagged[of "cameraPosition s" "vectors s" "nextAddr s" 0 "annotations s"]
  by (simp add: untagged_labels_def scene_render filter_empty_conv)
     (metis (mono_tags, lifting) filter_id_conv)

lemma scene_label_ids_render:
  "map label_id (scene_labels (renderAnnotations s))
     = map label_id (untagged_labels s)
       @ map (\<lambda>j. nextAddr s + 3 * j + 2) [0..<length (annotations s)]"
  by (simp add: scene_labels_def scene_render untagged_labels_def renderEach_label_ids del: upt_Suc)

lemma labelRenderer_render_keeps:
  "scene (labelRenderer_render s) = scene s"
  "annotations (labelRenderer_render s) = annotations s"
  "nextAddr (labelRenderer_render s) = nextAddr s"
  "pendingAnimations (labelRenderer_render s) = pendingAnimations s"
  by (simp_all add: labelRenderer_render_def)

lemma frame_idle:
  assumes "pendingAnimations s = []"
  shows "animationFrame (\<lambda>c. c) now s = labelRenderer_render s"
proof -
  have "s\<lparr>pendingAnimations := []\<rparr> = s\<lparr>pendingAnimations := pendingAnimations s\<rparr>"
    using assms by simp
  then have e: "s\<lparr>pendingAnimations := []\<rparr> = s" by simp
  show ?thesis
    by (simp add: animationFrame_def update_controls_def assms) (simp only: e)
qed

lemma render_keeps_page:
  "labelElements (renderAnnotations s) = labelElements s"
  "pendingAnimations (renderAnnotations s) = pendingAnimations s"
  by (simp_all add: renderAnnotations_alt updateAnnotationList_def)

lemma addNewAnnotation_page:
  "labelElements (settle (addNewAnnotation s)) = labelElements s"
  "pendingAnimations (settle (addNewAnnotation s)) = pendingAnimations s"
  by (simp_all add: addNewAnnotation_def addAnnotation_def openEditModal_def Let_def settle_def
      render_keeps_page split: option.splits)

lemma addNewAnnotation_scene:
  "scene (settle (addNewAnnotation s)) =
     scene (renderAnnotations
              (s\<lparr>vectors := (vectors s)(nextAddr s := Vector3 0 0.2 1),
                 nextAddr := Suc (nextAddr s),
                 annotations := annotations s @
                   [\<lparr> position = nextAddr s,
                      label = ''Annotation '' @ string_of_nat (length (annotations s) + 1),
                      description = Some ''Add your annotation description here.'',
                      color = ''#8b7ba8'', shape = ''sphere'', marker = None, mesh = None \<rparr>]\<rparr>))"
  by (simp add: addNewAnnotation_def addAnnotation_def openEditModal_def Let_def settle_def
      split: option.splits)

lemma scene_labels_cong: "scene s = scene s' \<Longrightarrow> scene_labels s = scene_labels s'"
  by (simp add: scene_labels_def)

lemma untagged_labels_cong: "scene s = scene s' \<Longrightarrow> untagged_labels s = untagged_labels s'"
  by (simp add: untagged_labels_def)

lemma markers_cong: "scene s = scene s' \<Longrightarrow> markers s = markers s'"
  by (simp add: markers_def)

lemma new_page:
  "labelElements new_CoinKiosk = []"
  "pendingAnimations new_CoinKiosk = []"
  "nextAddr new_CoinKiosk = 8"
  "untagged_labels new_CoinKiosk = []"
  "map label_id (scene_labels new_CoinKiosk) = [7]"
  by (simp_all add: new_CoinKiosk_def setupAnnotations_def Let_def render_keeps_page
      nextAddr_render untagged_labels_render scene_label_ids_render)
     (simp_all add: initial_fields_def untagged_labels_def other_object_def)

text \<open>
  C5. The code does not do what the claim says of the labels. A re-render drops the old
  visuals by assigning to \<^verbatim>\<open>scene.children\<close>, so the label renderer is never told to take
  the old label elements out. After a frame is drawn, an annotation is added and the next
  frame is drawn, the array has two records, the scene two markers and two labels, and
  the page three label elements: the element of the label that the first render built is
  still there. The marker half of the claim holds.
\<close>

theorem stale_labels_stay_on_page:
  "length (annotations (run add_between_frames)) = 2
   \<and> length (markers (run add_between_frames)) = 2
   \<and> map label_id (scene_labels (run add_between_frames)) = [11, 14]
   \<and> labelElements (run add_between_frames) = [7, 11, 14]"
proof -
  let ?s1 = "labelRenderer_render new_CoinKiosk"
  let ?s2 = "settle (addNewAnnotation ?s1)"
  let ?s3 = "labelRenderer_render ?s2"
  let ?y = "?s1\<lparr>vectors := (vectors ?s1)(nextAddr ?s1 := Vector3 0 0.2 1),
                 nextAddr := Suc (nextAddr ?s1),
                 annotations := annotations ?s1 @
                   [\<lparr> position = nextAddr ?s1,
                      label = ''Annotation '' @ string_of_nat (length (annotations ?s1) + 1),
                      description = Some ''Add your annotation description here.'',
                      color = ''#8b7ba8'', shape = ''sphere'', marker = None, mesh = None \<rparr>]\<rparr>"
  have r: "run add_between_frames = ?s3"
    by (simp add: run_def add_between_frames_def frame_idle new_page addNewAnnotation_page
        labelRenderer_render_keeps)
  have e1: "labelElements ?s1 = [7]"
    by (simp add: labelRenderer_render_def new_page)
  have sc: "scene ?s2 = scene (renderAnnotations ?y)" by (rule addNewAnnotation_scene)
  have u: "untagged_labels ?y = []"
    using new_page(4) by (simp add: untagged_labels_def labelRenderer_render_keeps)
  have ly: "length (annotations ?y) = 2" "nextAddr ?y = 9"
    by (simp_all add: labelRenderer_render_keeps annotations_new new_page)
  have ids: "map label_id (scene_labels ?s2) = [11, 14]"
    unfolding scene_labels_cong[OF sc] scene_label_ids_render u ly
    by (simp add: upt_conv_Cons)
  have "labelElements ?s3 = [7, 11, 14]"
    by (simp add: labelRenderer_render_def[of ?s2] ids addNewAnnotation_page e1)
  moreover have "map label_id (scene_labels ?s3) = [11, 14]"
    using ids by (simp add: scene_labels_def labelRenderer_render_keeps)
  moreover have "length (annotations ?s3) = 2"
    by (simp add: labelRenderer_render_keeps addNewAnnotation_length annotations_new)
  moreover have "length (markers ?s3) = 2"
  proof -
    have "markers ?s3 = markers ?s2"
      by (rule markers_cong) (simp add: labelRenderer_render_keeps)
    also have "\<dots> = markers (renderAnnotations ?y)"
      by (rule markers_cong[OF sc])
    finally have "length (markers ?s3) = length (annotations ?y)"
      by (simp only: markers_render renderEach_markers_length)
    then show ?thesis by (simp only: ly)
  qed
  ultimately show ?thesis by (simp add: r)
qed

lemma animate_camera_page: "labelElements (animate_camera upd now a s) = labelElements s"
  by (simp add: animate_camera_def update_controls_def Let_def split: prod.splits)

lemma fold_animate_page: "labelElements (fold (animate_camera upd now) as s) = labelElements s"
  by (induction as arbitrary: s) (simp_all add: animate_camera_page)

lemma saveEdit_page: "labelElements (settle (saveEdit s)) = labelElements s"
  by (simp add: saveEdit_def settle_def Let_def updateAnnotation_def closeEditModal_def
      render_keeps_page split: option.splits)

lemma funpow_page:
  fixes f :: "kiosk \<Rightarrow> kiosk"
  assumes "\<And>s. labelElements (f s) = labelElements s"
  shows "labelElements ((f ^^ n) s) = labelElements s"
proof (induction n)
  case 0
  show ?case by simp
next
  case (Suc n)
  have "labelElements ((f ^^ Suc n) s) = labelElements (f ((f ^^ n) s))" by simp
  also have "\<dots> = labelElements ((f ^^ n) s)" by (rule assms)
  finally show ?case using Suc by simp
qed

lemma onMouseMove_page: "labelElements (settle (onMouseMove ev rc s)) = labelElements s"
  by (simp add: onMouseMove_def settle_def Let_def render_keeps_page
      split: option.splits list.splits)

text \<open>
  No event takes a label element off the page: every event leaves the elements that were
  there, in their order, and at most appends new ones.
\<close>

theorem label_elements_only_grow:
  "\<exists>added. labelElements (step e s) = labelElements s @ added"
proof (cases e)
  case (Frame now upd)
  then show ?thesis
    by (simp add: animationFrame_def fold_animate_page labelRenderer_render_def
        update_controls_def split: prod.splits)
next
  case ClickSave
  then show ?thesis using funpow_page[of "\<lambda>s'. settle (saveEdit s')"]
    by (simp add: saveEdit_page)
next
  case ClickCancel
  then show ?thesis using funpow_page[of closeEditModal]
    by (simp add: closeEditModal_def)
qed (simp_all add: add_to_scene_def addNewAnnotation_page onMouseDown_def Let_def
      onMouseMove_page onMouseUp_def focusOnAnnotation_def animateCameraTo_def
      animate_camera_page split: option.splits list.splits)

subsection \<open>Saving the edit modal\<close>

lemma renderEach_nth:
  "j < length as \<Longrightarrow>
   fst (renderEach cam h n i as) ! j =
   (as ! j)\<lparr>mesh := Some (n + 3 * j), marker := Some (n + 3 * j + 2)\<rparr>"
proof (induction as arbitrary: n i j)
  case Nil
  then show ?case by simp
next
  case (Cons a as)
  show ?case
  proof (cases j)
    case 0
    then show ?thesis by (simp add: renderEach_unfold)
  next
    case (Suc k)
    then have "k < length as" using Cons.prems by simp
    from Cons.IH[OF this, of "n + 3" "Suc i"] Suc show ?thesis
      by (simp add: renderEach_unfold algebra_simps)
  qed
qed

text \<open>
  C4. With the editor open on record \<open>i\<close>, \<open>saveEdit\<close> returns; in the state it leaves,
  record \<open>i\<close> has the trimmed label field, the color field and the shape field of the form,
  the position object it had (whose coordinates are untouched), and no description.
\<close>

theorem saveEdit_sets_fields_and_drops_description:
  assumes "currentEditIndex s = Some i" and "0 \<le> i" and "i < int (length (annotations s))"
  shows "\<exists>s'. saveEdit s = Inr s'
           \<and> length (annotations s') = length (annotations s)
           \<and> label (annotations s' ! nat i) = trim (editLabel (form s))
           \<and> color (annotations s' ! nat i) = editColor (form s)
           \<and> shape (annotations s' ! nat i) = editShape (form s)
           \<and> position (annotations s' ! nat i) = position (annotations s ! nat i)
           \<and> vectors s' = vectors s
           \<and> description (annotations s' ! nat i) = None"
proof -
  let ?a = "annotations s ! nat i"
  let ?u = "s\<lparr>annotations := (annotations s)
               [nat i := ?a\<lparr>label := trim (editLabel (form s)), position := position ?a,
                            color := editColor (form s), shape := editShape (form s),
                            description := None\<rparr>]\<rparr>"
  have lk: "lookup (annotations s) i = Some ?a"
    using assms by (simp add: lookup_def)
  have se: "saveEdit s = Inr (closeEditModal (renderAnnotations ?u))"
    using assms lk by (simp add: saveEdit_def updateAnnotation_def Let_def)
  have n: "nat i < length (annotations ?u)" using assms by simp
  have "annotations (closeEditModal (renderAnnotations ?u)) ! nat i
          = (annotations ?u ! nat i)\<lparr>mesh := Some (nextAddr ?u + 3 * nat i),
                                      marker := Some (nextAddr ?u + 3 * nat i + 2)\<rparr>"
    using renderEach_nth[OF n] by (simp add: closeEditModal_def annotations_render)
  moreover have "annotations ?u ! nat i =
      ?a\<lparr>label := trim (editLabel (form s)), position := position ?a,
          color := editColor (form s), shape := editShape (form s), description := None\<rparr>"
    using assms by simp
  moreover have "length (annotations (closeEditModal (renderAnnotations ?u))) = length (annotations s)"
    by (simp add: closeEditModal_def length_annotations_render)
  moreover have "vectors (closeEditModal (renderAnnotations ?u)) = vectors s"
    by (simp add: closeEditModal_def vectors_render)
  ultimately show ?thesis using se by simp
qed

lemma trim_gate: "trim '' Gate '' = ''Gate''"
  by (simp add: trim_def isWhiteSpace_def)

lemma editing_gate_facts:
  "currentEditIndex (run editing_gate) = Some 1"
  "length (annotations (run editing_gate)) = 2"
  "form (run editing_gate) = gate_form"
  by (simp_all add: run_def editing_gate_def addNewAnnotation_editor addNewAnnotation_length
      annotations_new)

theorem saveEdit_sets_fields_and_drops_description_witness:
  "currentEditIndex (run editing_gate) = Some 1
   \<and> (1::int) < int (length (annotations (run editing_gate)))
   \<and> (\<exists>s'. saveEdit (run editing_gate) = Inr s'
          \<and> label (annotations s' ! 1) = ''Gate''
          \<and> color (annotations s' ! 1) = ''#ff0000''
          \<and> shape (annotations s' ! 1) = ''cube''
          \<and> position (annotations s' ! 1) = position (annotations (run editing_gate) ! 1)
          \<and> description (annotations s' ! 1) = None)"
  using saveEdit_sets_fields_and_drops_description[of "run editing_gate" 1]
  by (auto simp: editing_gate_facts gate_form_def trim_gate)

subsection \<open>What a re-render depends on\<close>

lemma renderEach_visuals_cong:
  assumes "map (fields h1) as1 = map (fields h2) as2"
  shows "map (\<lambda>obj. without_orientation (anonymous obj)) (fst (snd (renderEach c1 h1 n1 i as1)))
       = map (\<lambda>obj. without_orientation (anonymous obj)) (fst (snd (renderEach c2 h2 n2 i as2)))"
  using assms
proof (induction as1 arbitrary: as2 n1 n2 i)
  case Nil
  then show ?case by (simp add: renderEach_unfold)
next
  case (Cons a as1)
  then obtain b bs where as2: "as2 = b # bs" and ab: "fields h1 a = fields h2 b"
    and rest: "map (fields h1) as1 = map (fields h2) bs"
    by (cases as2) auto
  from Cons.IH[OF rest, of "n1 + 3" "Suc i" "n2 + 3"] ab show ?case
    by (simp add: as2 renderEach_unfold make_marker_def make_line_def fields_def
        anonymous_def without_orientation_def)
qed

lemma renderEach_visuals_cong_camera:
  assumes "map (fields h1) as1 = map (fields h2) as2"
  shows "map anonymous (fst (snd (renderEach c h1 n1 i as1)))
       = map anonymous (fst (snd (renderEach c h2 n2 i as2)))"
  using assms
proof (induction as1 arbitrary: as2 n1 n2 i)
  case Nil
  then show ?case by (simp add: renderEach_unfold)
next
  case (Cons a as1)
  then obtain b bs where as2: "as2 = b # bs" and ab: "fields h1 a = fields h2 b"
    and rest: "map (fields h1) as1 = map (fields h2) bs"
    by (cases as2) auto
  from Cons.IH[OF rest, of "n1 + 3" "Suc i" "n2 + 3"] ab show ?case
    by (simp add: as2 renderEach_unfold make_marker_def make_line_def fields_def anonymous_def)
qed

lemma lookAt_from_front:
  "lookAt (Vector3 (9 / 10) (1 / 20) (1 / 5)) (Vector3 (9 / 10) (1 / 20) (11 / 5))
     = (Vector3 1 0 0, Vector3 0 1 0, Vector3 0 0 1)"
  by (simp add: lookAt_def Matrix4_lookAt_def subVectors_def lengthSq_def length_v_def
      normalize_def multiplyScalar_def crossVectors_def DEFAULT_UP_def Let_def)

lemma lookAt_from_side:
  "lookAt (Vector3 (9 / 10) (1 / 20) (1 / 5)) (Vector3 (29 / 10) (1 / 20) (1 / 5))
     = (Vector3 0 0 (- 1), Vector3 0 1 0, Vector3 1 0 0)"
  by (simp add: lookAt_def Matrix4_lookAt_def subVectors_def lengthSq_def length_v_def
      normalize_def multiplyScalar_def crossVectors_def DEFAULT_UP_def Let_def)

text \<open>
  C3, as the claim states it, fails: two states with the same annotation array and the
  camera at different places give their markers different orientations, because each
  marker is turned to face the camera when it is built.
\<close>

theorem rendered_depends_on_camera_counterexample:
  "map (fields (vectors camera_in_front)) (annotations camera_in_front)
     = map (fields (vectors camera_at_side)) (annotations camera_at_side)
   \<and> rendered camera_in_front \<noteq> rendered camera_at_side"
proof -
  have "map obj_orientation (rendered camera_in_front)
          = [(Vector3 1 0 0, Vector3 0 1 0, Vector3 0 0 1), identity_orientation]"
    by (simp add: rendered_def visuals_render camera_in_front_def new_annotations new_vectors
        inscription_def renderEach_unfold make_marker_def make_line_def anonymous_def
        lookAt_from_front)
  moreover have "map obj_orientation (rendered camera_at_side)
          = [(Vector3 0 0 (- 1), Vector3 0 1 0, Vector3 1 0 0), identity_orientation]"
    by (simp add: rendered_def visuals_render camera_at_side_def new_annotations new_vectors
        inscription_def renderEach_unfold make_marker_def make_line_def anonymous_def
        lookAt_from_side)
  ultimately have "rendered camera_in_front \<noteq> rendered camera_at_side" by auto
  then show ?thesis by (simp add: camera_in_front_def camera_at_side_def)
qed

text \<open>
  C3, amended. The annotation visuals that a re-render produces are a function of the
  annotation array and of the camera position: from equal arrays (the records' five data
  fields, positions read through the store) two re-renders produce visuals that agree in
  everything but the orientation of the markers, and that agree in the orientation too
  when the camera is at the same place.
\<close>

theorem rendered_depends_on_array_and_camera:
  assumes "map (fields (vectors s1)) (annotations s1) = map (fields (vectors s2)) (annotations s2)"
  shows "map without_orientation (rendered s1) = map without_orientation (rendered s2)
         \<and> (cameraPosition s1 = cameraPosition s2 \<longrightarrow> rendered s1 = rendered s2)"
proof
  show "map without_orientation (rendered s1) = map without_orientation (rendered s2)"
    using renderEach_visuals_cong[OF assms, of "cameraPosition s1" "nextAddr s1" 0
            "cameraPosition s2" "nextAddr s2"]
    by (simp add: rendered_def visuals_render o_def)
  show "cameraPosition s1 = cameraPosition s2 \<longrightarrow> rendered s1 = rendered s2"
    using renderEach_visuals_cong_camera[OF assms, of "cameraPosition s2" "nextAddr s1" 0
            "nextAddr s2"]
    by (auto simp: rendered_def visuals_render)
qed

theorem rendered_depends_on_array_and_camera_witness:
  "map (fields (vectors camera_in_front)) (annotations camera_in_front)
     = map (fields (vectors camera_at_side)) (annotations camera_at_side)
   \<and> map without_orientation (rendered camera_in_front)
     = map without_orientation (rendered camera_at_side)
   \<and> cameraPosition new_CoinKiosk = cameraPosition (new_CoinKiosk\<lparr>mouse := Vector2 1 1\<rparr>)
   \<and> rendered new_CoinKiosk = rendered (new_CoinKiosk\<lparr>mouse := Vector2 1 1\<rparr>)"
proof -
  have e: "map (fields (vectors camera_in_front)) (annotations camera_in_front)
         = map (fields (vectors camera_at_side)) (annotations camera_at_side)"
    by (simp add: camera_in_front_def camera_at_side_def)
  have f: "map (fields (vectors new_CoinKiosk)) (annotations new_CoinKiosk)
         = map (fields (vectors (new_CoinKiosk\<lparr>mouse := Vector2 1 1\<rparr>)))
               (annotations (new_CoinKiosk\<lparr>mouse := Vector2 1 1\<rparr>))"
    by simp
  show ?thesis
    using rendered_depends_on_array_and_camera[OF e] rendered_depends_on_array_and_camera[OF f] e
    by simp
qed

subsection \<open>Position objects are not shared\<close>

lemma positions_render:
  "map position (annotations (renderAnnotations s)) = map position (annotations s)"
  by (simp add: annotations_render renderEach_position)

lemma store_ok_render: "store_ok s \<Longrightarrow> store_ok (renderAnnotations s)"
  unfolding store_ok_def positions_render nextAddr_render by auto

lemma store_ok_cong:
  "map position (annotations s') = map position (annotations s) \<Longrightarrow> nextAddr s \<le> nextAddr s'
   \<Longrightarrow> store_ok s \<Longrightarrow> store_ok s'"
  unfolding store_ok_def by fastforce

lemma store_ok_add_to_scene: "store_ok s \<Longrightarrow> store_ok (add_to_scene p s)"
  by (erule store_ok_cong[rotated 2]) (simp_all add: add_to_scene_def)

lemma store_ok_openEditModal: "store_ok s \<Longrightarrow> store_ok (settle (openEditModal i s))"
  by (erule store_ok_cong[rotated 2])
     (simp_all add: openEditModal_def settle_def Let_def split: option.splits)

lemma store_ok_addNewAnnotation:
  assumes "store_ok s"
  shows "store_ok (settle (addNewAnnotation s))"
proof -
  let ?s1 = "s\<lparr>vectors := (vectors s)(nextAddr s := Vector3 0 0.2 1), nextAddr := Suc (nextAddr s)\<rparr>"
  let ?rec = "\<lparr> position = nextAddr s,
                label = ''Annotation '' @ string_of_nat (length (annotations ?s1) + 1),
                description = Some ''Add your annotation description here.'', color = ''#8b7ba8'',
                shape = ''sphere'', marker = None, mesh = None \<rparr>"
  have "store_ok (?s1\<lparr>annotations := annotations ?s1 @ [?rec]\<rparr>)"
    using assms unfolding store_ok_def by fastforce
  then have "store_ok (addAnnotation (label ?rec) (nextAddr s) ''#8b7ba8'' ''sphere''
                 ''Add your annotation description here.'' ?s1)"
    unfolding addAnnotation_def by (simp add: store_ok_render)
  then show ?thesis
    unfolding addNewAnnotation_def Let_def by (simp add: store_ok_openEditModal)
qed

lemma store_ok_onMouseDown: "store_ok s \<Longrightarrow> store_ok (onMouseDown ev rc s)"
  by (erule store_ok_cong[rotated 2])
     (simp_all add: onMouseDown_def Let_def split: option.splits list.splits)

lemma store_ok_onMouseMove:
  assumes "store_ok s"
  shows "store_ok (settle (onMouseMove ev rc s))"
proof -
  have "map position (annotations (settle (onMouseMove ev rc s))) = map position (annotations s)"
    by (simp add: onMouseMove_def settle_def Let_def positions_render
        split: option.splits list.splits)
  moreover have "nextAddr s \<le> nextAddr (settle (onMouseMove ev rc s))"
    by (simp add: onMouseMove_def settle_def Let_def nextAddr_render
        split: option.splits list.splits)
  ultimately show ?thesis using assms by (rule store_ok_cong)
qed

lemma store_ok_onMouseUp: "store_ok s \<Longrightarrow> store_ok (onMouseUp s)"
  by (erule store_ok_cong[rotated 2]) (simp_all add: onMouseUp_def)

lemma store_ok_closeEditModal: "store_ok s \<Longrightarrow> store_ok (closeEditModal s)"
  by (erule store_ok_cong[rotated 2]) (simp_all add: closeEditModal_def)

lemma map_position_update_same:
  "i < length xs \<Longrightarrow> position a = position (xs ! i) \<Longrightarrow>
   map position (xs[i := a]) = map position xs"
  by (simp add: map_update list_update_same_conv)

lemma store_ok_saveEdit:
  assumes "store_ok s"
  shows "store_ok (settle (saveEdit s))"
proof -
  have "map position (annotations (settle (saveEdit s))) = map position (annotations s)"
    by (auto simp: saveEdit_def settle_def Let_def updateAnnotation_def closeEditModal_def
        lookup_def positions_render map_position_update_same split: option.splits if_splits)
  moreover have "nextAddr s \<le> nextAddr (settle (saveEdit s))"
    by (auto simp: saveEdit_def settle_def Let_def updateAnnotation_def closeEditModal_def
        lookup_def nextAddr_render split: option.splits if_splits)
  ultimately show ?thesis using assms by (rule store_ok_cong)
qed

lemma store_ok_funpow:
  "(\<And>s. store_ok s \<Longrightarrow> store_ok (f s)) \<Longrightarrow> store_ok s \<Longrightarrow> store_ok ((f ^^ n) s)"
  by (induction n) auto

lemma animate_camera_store:
  "annotations (animate_camera upd now a s) = annotations s
   \<and> nextAddr (animate_camera upd now a s) = nextAddr s"
  by (simp add: animate_camera_def update_controls_def Let_def split: prod.splits)

lemma fold_animate_store:
  "annotations (fold (animate_camera upd now) as s) = annotations s
   \<and> nextAddr (fold (animate_camera upd now) as s) = nextAddr s"
  by (induction as arbitrary: s) (simp_all add: animate_camera_store)

lemma store_ok_animationFrame: "store_ok s \<Longrightarrow> store_ok (animationFrame upd now s)"
  by (erule store_ok_cong[rotated 2])
     (simp_all add: animationFrame_def fold_animate_store update_controls_def
        labelRenderer_render_def split: prod.splits)

lemma store_ok_focus: "store_ok s \<Longrightarrow> store_ok (focusOnAnnotation i t0 t1 upd s)"
  by (erule store_ok_cong[rotated 2])
     (simp_all add: focusOnAnnotation_def animateCameraTo_def animate_camera_store Let_def)

lemma store_ok_step: "store_ok s \<Longrightarrow> store_ok (step e s)"
proof (cases e)
  case ClickSave
  assume "store_ok s"
  then show ?thesis using ClickSave store_ok_funpow[of "\<lambda>s'. settle (saveEdit s')"]
    by (simp add: store_ok_saveEdit)
next
  case ClickCancel
  assume "store_ok s"
  then show ?thesis using ClickCancel store_ok_funpow[of closeEditModal]
    by (simp add: store_ok_closeEditModal)
next
  case (Input f)
  assume "store_ok s"
  then show ?thesis using Input by (simp add: store_ok_def)
next
  case (LockPosition c)
  assume "store_ok s"
  then show ?thesis using LockPosition by (simp add: store_ok_def)
qed (simp_all add: store_ok_add_to_scene store_ok_addNewAnnotation store_ok_onMouseDown
      store_ok_onMouseMove store_ok_onMouseUp store_ok_focus store_ok_animationFrame)

lemma store_ok_fold: "store_ok s \<Longrightarrow> store_ok (fold step es s)"
  by (induction es arbitrary: s) (simp_all add: store_ok_step)

lemma store_ok_new: "store_ok new_CoinKiosk"
  unfolding new_CoinKiosk_def setupAnnotations_def Let_def
  by (rule store_ok_render) (simp add: store_ok_def inscription_def initial_fields_def)

lemma store_ok_run: "store_ok (run es)"
  unfolding run_def by (rule store_ok_fold[OF store_ok_new])

subsection \<open>Dragging\<close>

lemma onMouseMove_shape:
  assumes "isDragging s" and "draggedAnnotationIndex s = Some i"
    and "0 \<le> i" and "i < int (length (annotations s))"
    and "rc (pointer ev) proxySphere = p # ps"
  shows "onMouseMove ev rc s =
           Inr (renderAnnotations
                  (s\<lparr>mouse := pointer ev,
                     vectors := (vectors s)(position (annotations s ! nat i) := p),
                     scene := (case mesh (annotations s ! nat i) of
                                 None \<Rightarrow> scene s
                               | Some m \<Rightarrow>
                                   map (\<lambda>obj. if oid obj = m then obj\<lparr>obj_position := p\<rparr> else obj)
                                       (scene s))\<rparr>))"
  using assms
  by (auto simp: onMouseMove_def Let_def lookup_def split: option.splits)

text \<open>
  C8. While record \<open>i\<close> is dragged, a mouse move whose ray meets the proxy sphere (radius
  1.5, at the origin) returns; record \<open>i\<close> then has the nearest intersection point as its
  position, and the annotation visuals in the scene are exactly the ones built anew from
  the array: one marker per record, at the position of its record, carrying the record's
  index, and none of them an object that existed before.
\<close>

theorem drag_move_sets_position_and_rerenders:
  assumes "isDragging s" and "draggedAnnotationIndex s = Some i"
    and "0 \<le> i" and "i < int (length (annotations s))"
    and "rc (pointer ev) (SphereGeometry 1.5 32 32, Vector3 0 0 0) = p # ps"
  shows "\<exists>s'. onMouseMove ev rc s = Inr s'
           \<and> length (annotations s') = length (annotations s)
           \<and> vectors s' (position (annotations s' ! nat i)) = p
           \<and> annotation_visuals s' =
               fst (snd (renderEach (cameraPosition s) (vectors s') (nextAddr s) 0 (annotations s)))
           \<and> length (markers s') = length (annotations s')
           \<and> (\<forall>j < length (annotations s').
                 obj_position (markers s' ! j) = vectors s' (position (annotations s' ! j))
                 \<and> annotationIndex (markers s' ! j) = Some (int j)
                 \<and> nextAddr s \<le> oid (markers s' ! j))"
proof -
  from assms(5) have hit: "rc (pointer ev) proxySphere = p # ps"
    by (simp add: proxySphere_def)
  obtain sc where
    mv: "onMouseMove ev rc s = Inr (renderAnnotations
            (s\<lparr>mouse := pointer ev,
               vectors := (vectors s)(position (annotations s ! nat i) := p),
               scene := sc\<rparr>))" (is "_ = Inr (renderAnnotations ?s3)")
    using onMouseMove_shape[of s i rc ev p ps] assms(1-4) hit by blast
  let ?s' = "renderAnnotations ?s3"
  let ?h = "(vectors s)(position (annotations s ! nat i) := p)"
  have v: "vectors ?s' = ?h" by (simp add: vectors_render)
  have len: "length (annotations ?s') = length (annotations s)"
    by (simp add: annotations_render renderEach_length)
  have ni: "nat i < length (annotations s)" using assms by simp
  have pos: "map position (annotations ?s') = map position (annotations s)"
    by (simp add: positions_render)
  have posj: "position (annotations ?s' ! j) = position (annotations s ! j)"
    if "j < length (annotations s)" for j
    using that pos len by (metis nth_map)
  have "vectors ?s' (position (annotations ?s' ! nat i)) = p"
    using posj[OF ni] v by simp
  moreover have "annotation_visuals ?s' =
      fst (snd (renderEach (cameraPosition s) (vectors ?s') (nextAddr s) 0 (annotations s)))"
    by (simp add: visuals_render vectors_render)
  moreover have "length (markers ?s') = length (annotations ?s')"
    by (simp add: markers_render renderEach_markers_length len)
  moreover have "\<forall>j < length (annotations ?s').
       obj_position (markers ?s' ! j) = vectors ?s' (position (annotations ?s' ! j))
       \<and> annotationIndex (markers ?s' ! j) = Some (int j)
       \<and> nextAddr s \<le> oid (markers ?s' ! j)"
  proof (intro allI impI)
    fix j assume "j < length (annotations ?s')"
    then have j: "j < length (annotations s)" using len by simp
    have "markers ?s' ! j =
            make_marker (cameraPosition s) ?h (nextAddr s + 3 * j) (0 + j) (annotations s ! j)"
      using renderEach_marker_nth[of j "annotations s" "cameraPosition s" ?h "nextAddr s" 0] j
      by (simp add: markers_render)
    then show "obj_position (markers ?s' ! j) = vectors ?s' (position (annotations ?s' ! j))
       \<and> annotationIndex (markers ?s' ! j) = Some (int j)
       \<and> nextAddr s \<le> oid (markers ?s' ! j)"
      using posj[OF j] v by (simp add: make_marker_def)
  qed
  ultimately show ?thesis using mv len by blast
qed

theorem drag_move_sets_position_and_rerenders_witness:
  "isDragging (run drag_started)
   \<and> draggedAnnotationIndex (run drag_started) = Some 1
   \<and> (1::int) < int (length (annotations (run drag_started)))
   \<and> hits_sphere_front (pointer centre_click) (SphereGeometry 1.5 32 32, Vector3 0 0 0)
       = [Vector3 0 0 1.5, Vector3 0 0 (- 1.5)]
   \<and> (\<exists>s'. onMouseMove centre_click hits_sphere_front (run drag_started) = Inr s'
          \<and> vectors s' (position (annotations s' ! 1)) = Vector3 0 0 1.5
          \<and> length (markers s') = 2
          \<and> obj_position (markers s' ! 1) = Vector3 0 0 1.5)"
proof -
  have h: "hits_sphere_front (pointer centre_click) (SphereGeometry 1.5 32 32, Vector3 0 0 0)
             = Vector3 0 0 1.5 # [Vector3 0 0 (- 1.5)]"
    by (simp add: hits_sphere_front_def)
  have l: "(1::int) < int (length (annotations (run drag_started)))"
    by (simp add: drag_started_facts)
  have z: "(0::int) \<le> 1" by simp
  from drag_move_sets_position_and_rerenders[of "run drag_started" 1 hits_sphere_front
         centre_click "Vector3 0 0 1.5" "[Vector3 0 0 (- 1.5)]",
         OF drag_started_facts(1,2) z l h]
  obtain s' where s': "onMouseMove centre_click hits_sphere_front (run drag_started) = Inr s'"
    "length (annotations s') = length (annotations (run drag_started))"
    "vectors s' (position (annotations s' ! nat 1)) = Vector3 0 0 1.5"
    "length (markers s') = length (annotations s')"
    "\<forall>j < length (annotations s'). obj_position (markers s' ! j) = vectors s' (position (annotations s' ! j))
                 \<and> annotationIndex (markers s' ! j) = Some (int j)
                 \<and> nextAddr (run drag_started) \<le> oid (markers s' ! j)"
    by auto
  from s'(2) have n: "length (annotations s') = 2" by (simp add: drag_started_facts)
  then have "obj_position (markers s' ! 1) = vectors s' (position (annotations s' ! 1))"
    using s'(5) by simp
  with s' n h l show ?thesis by (simp add: drag_started_facts)
qed

text \<open>
  C6. In a state the application can reach by its events, with a drag in progress on
  index \<open>i\<close>, the mouse-move handler leaves the array as long as it was, leaves the label,
  description, color and shape of every record as they were, and leaves the position of
  every record other than \<open>i\<close> as it was.
\<close>

theorem drag_changes_only_dragged_position:
  assumes "isDragging (run es)" and "draggedAnnotationIndex (run es) = Some i"
    and "s' = settle (onMouseMove ev rc (run es))"
  shows "length (annotations s') = length (annotations (run es))
         \<and> (\<forall>j < length (annotations (run es)).
               label (annotations s' ! j) = label (annotations (run es) ! j)
               \<and> description (annotations s' ! j) = description (annotations (run es) ! j)
               \<and> color (annotations s' ! j) = color (annotations (run es) ! j)
               \<and> shape (annotations s' ! j) = shape (annotations (run es) ! j)
               \<and> (int j \<noteq> i \<longrightarrow>
                    fields (vectors s') (annotations s' ! j)
                      = fields (vectors (run es)) (annotations (run es) ! j)))"
proof -
  let ?s = "run es"
  have ok: "store_ok ?s" by (rule store_ok_run)
  consider (same) "annotations s' = annotations ?s" "vectors s' = vectors ?s"
    | (moved) p sc where "0 \<le> i" "i < int (length (annotations ?s))"
        "s' = renderAnnotations
                (?s\<lparr>mouse := pointer ev,
                    vectors := (vectors ?s)(position (annotations ?s ! nat i) := p),
                    scene := sc\<rparr>)"
  proof (cases "0 \<le> i \<and> i < int (length (annotations ?s))
                 \<and> (\<exists>p ps. rc (pointer ev) proxySphere = p # ps)")
    case True
    then obtain p ps where "rc (pointer ev) proxySphere = p # ps" by blast
    with True assms onMouseMove_shape[of ?s i rc ev p ps] show ?thesis
      by (intro moved[where p = p]) (auto simp: settle_def)
  next
    case False
    with assms have "annotations s' = annotations ?s \<and> vectors s' = vectors ?s"
      by (auto simp: onMouseMove_def settle_def Let_def lookup_def
               split: option.splits list.splits if_splits)
    then show ?thesis by (intro same) auto
  qed
  then show ?thesis
  proof cases
    case same
    then show ?thesis by simp
  next
    case moved
    let ?h = "(vectors ?s)(position (annotations ?s ! nat i) := p)"
    have len: "length (annotations s') = length (annotations ?s)"
      using moved(3) by (simp add: annotations_render renderEach_length)
    have v: "vectors s' = ?h" using moved(3) by (simp add: vectors_render)
    have nth: "annotations s' ! j =
        (annotations ?s ! j)\<lparr>mesh := Some (nextAddr ?s + 3 * j),
                              marker := Some (nextAddr ?s + 3 * j + 2)\<rparr>"
      if "j < length (annotations ?s)" for j
      using renderEach_nth[OF that, of "cameraPosition ?s" ?h "nextAddr ?s" 0] moved(3)
      by (simp add: annotations_render)
    have other: "position (annotations ?s ! j) \<noteq> position (annotations ?s ! nat i)"
      if "j < length (annotations ?s)" "int j \<noteq> i" for j
    proof -
      have "distinct (map position (annotations ?s))" using ok by (simp add: store_ok_def)
      moreover have "nat i < length (annotations ?s)" "j \<noteq> nat i" using moved that by auto
      ultimately show ?thesis using that(1)
        by (metis length_map nth_eq_iff_index_eq nth_map)
    qed
    show ?thesis using len nth other v by (simp add: fields_def)
  qed
qed

theorem drag_changes_only_dragged_position_witness:
  "isDragging (run drag_started)
   \<and> draggedAnnotationIndex (run drag_started) = Some 1
   \<and> 0 < length (annotations (run drag_started))
   \<and> fields (vectors (settle (onMouseMove centre_click hits_sphere_front (run drag_started))))
        (annotations (settle (onMouseMove centre_click hits_sphere_front (run drag_started))) ! 0)
      = fields (vectors (run drag_started)) (annotations (run drag_started) ! 0)"
  using drag_changes_only_dragged_position[OF drag_started_facts(1,2) refl,
          of centre_click hits_sphere_front]
  by (simp add: drag_started_facts)

subsection \<open>The shape field and the marker geometry\<close>

text \<open>
  C1. The code does not do what the claim says: after an update that sets the shape of the
  only record to \<open>cube\<close>, the array still has one record, whose shape is \<open>cube\<close>, but the
  marker that the re-render builds has the ring geometry; \<open>getMarkerGeometry\<close>, which
  gives a box for \<open>cube\<close>, is not called by the renderer.
\<close>

theorem update_to_cube_keeps_ring:
  "map shape (annotations (updateAnnotation 0 ''Gate'' 4 ''#8b7ba8'' ''cube'' (Some ''A gate'') new_CoinKiosk)) = [''cube'']
   \<and> map obj_geometry (markers (updateAnnotation 0 ''Gate'' 4 ''#8b7ba8'' ''cube'' (Some ''A gate'') new_CoinKiosk))
       = [RingGeometry 0.03 0.04 32]
   \<and> getMarkerGeometry ''cube'' = BoxGeometry 0.1 0.1 0.1"
  by (simp add: updateAnnotation_def lookup_def new_annotations annotations_render markers_render
      renderEach_unfold make_marker_def make_line_def is_marker_def getMarkerGeometry_def)

lemma renderEach_rings:
  "\<forall>obj \<in> set (fst (snd (renderEach cam h n i as))).
     is_marker obj \<longrightarrow> obj_geometry obj = RingGeometry 0.03 0.04 32"
  by (induction as arbitrary: n i)
     (simp_all add: renderEach_unfold make_marker_def make_line_def is_marker_def)

text \<open>
  Whatever the shapes of the records, every marker that a re-render leaves in the scene
  has the ring geometry.
\<close>

theorem markers_are_rings:
  "\<forall>obj \<in> set (markers (renderAnnotations s)). obj_geometry obj = RingGeometry 0.03 0.04 32"
  using renderEach_rings[of "cameraPosition s" "vectors s" "nextAddr s" 0 "annotations s"]
  by (simp add: markers_render)

theorem markers_are_rings_witness:
  "markers (renderAnnotations new_CoinKiosk) \<noteq> []
   \<and> obj_geometry (hd (markers (renderAnnotations new_CoinKiosk))) = RingGeometry 0.03 0.04 32"
proof -
  have "length (markers (renderAnnotations new_CoinKiosk)) = 1"
    by (simp add: markers_render renderEach_markers_length annotations_new)
  then have n: "markers (renderAnnotations new_CoinKiosk) \<noteq> []" by auto
  then have "hd (markers (renderAnnotations new_CoinKiosk)) \<in> set (markers (renderAnnotations new_CoinKiosk))"
    by simp
  with markers_are_rings[of new_CoinKiosk] n show ?thesis by blast
qed

lemma renderEach_objects_length:
  "length (fst (snd (renderEach cam h n i as))) = 2 * length as"
  by (induction as arbitrary: n i) (simp_all add: renderEach_unfold)

text \<open>
  The connecting lines carry the annotation tag as the markers do: a re-render leaves
  two tagged children of the scene for every record.
\<close>

theorem tagged_objects_twice_records:
  "length (annotation_visuals (renderAnnotations s)) = 2 * length (annotations (renderAnnotations s))"
  by (simp add: visuals_render renderEach_objects_length length_annotations_render)

subsection \<open>Indices outside the array\<close>

text \<open>
  C2. The code does not do what the claim says for a negative index: \<open>splice\<close> counts a
  negative start from the end of the array, so deleting at index \<open>-1\<close> removes the last
  record. Here the only record of the constructor's state is removed.
\<close>

theorem delete_negative_index_removes_last:
  "length (annotations new_CoinKiosk) = 1
   \<and> annotations (deleteAnnotation (- 1) new_CoinKiosk) = []"
  by (simp add: deleteAnnotation_def annotations_render new_annotations splice_def renderEach_unfold)

text \<open>
  The rest of the claim holds. An update at an index outside the array returns the state
  it was given.
\<close>

theorem update_out_of_range_noop:
  "index < 0 \<or> int (length (annotations s)) \<le> index \<Longrightarrow>
   updateAnnotation index lbl pos col shp desc s = s"
  by (auto simp: updateAnnotation_def lookup_def)

theorem update_out_of_range_noop_witness:
  "int (length (annotations new_CoinKiosk)) \<le> 1
   \<and> updateAnnotation 1 ''Gate'' 4 ''#ff0000'' ''cube'' None new_CoinKiosk = new_CoinKiosk
   \<and> updateAnnotation (- 1) ''Gate'' 4 ''#ff0000'' ''cube'' None new_CoinKiosk = new_CoinKiosk"
  using update_out_of_range_noop[of 1 new_CoinKiosk "''Gate''" 4 "''#ff0000''" "''cube''" None]
        update_out_of_range_noop[of "- 1" new_CoinKiosk "''Gate''" 4 "''#ff0000''" "''cube''" None]
  by (simp add: annotations_new)

text \<open>
  A delete at an index at or past the end of the array removes nothing: the re-render
  that follows leaves every record with the data fields it had.
\<close>

theorem delete_past_end_keeps_records:
  assumes "int (length (annotations s)) \<le> index"
  shows "map (fields (vectors (deleteAnnotation index s))) (annotations (deleteAnnotation index s))
           = map (fields (vectors s)) (annotations s)"
proof -
  have "splice (annotations s) index 1 = annotations s"
    using assms by (simp add: splice_def Let_def min_def max_def)
  then show ?thesis
    by (simp add: deleteAnnotation_def vectors_render annotations_render renderEach_fields)
qed

theorem delete_past_end_keeps_records_witness:
  "int (length (annotations new_CoinKiosk)) \<le> 1
   \<and> map (fields (vectors (deleteAnnotation 1 new_CoinKiosk))) (annotations (deleteAnnotation 1 new_CoinKiosk))
       = map (fields (vectors new_CoinKiosk)) (annotations new_CoinKiosk)"
  using delete_past_end_keeps_records[of new_CoinKiosk 1]
  by (simp add: annotations_new)

subsection \<open>Starting and ending a drag\<close>

text \<open>
  C7. The code does not keep the invariant of the claim: closing the editor does not end a
  drag. After a new annotation is added (the editor opens on index 1), its marker is
  pressed and the editor is cancelled, a drag on index 1 is in progress with no editor
  open.
\<close>

theorem drag_survives_closing_editor:
  "isDragging (run (drag_started @ [ClickCancel]))
   \<and> draggedAnnotationIndex (run (drag_started @ [ClickCancel])) = Some 1
   \<and> currentEditIndex (run (drag_started @ [ClickCancel])) = None"
  using closeEditModal_funpow[of "cancelListeners new_CoinKiosk" "run drag_started"]
        closeEditModal_funpow[of "Suc (cancelListeners new_CoinKiosk)" "run drag_started"]
  by (simp add: run_snoc drag_started_facts del: funpow.simps)

text \<open>
  The second half of the claim holds: a mouse-down with no editor open, or one whose ray
  first hits an object that does not carry the index open in the editor, leaves the drag
  state as it was.
\<close>

theorem mouse_down_elsewhere_starts_no_drag:
  assumes "currentEditIndex s = None
           \<or> (\<exists>obj objs. rc (pointer ev) (annotation_visuals s) = obj # objs
                 \<and> annotationIndex obj \<noteq> currentEditIndex s)"
  shows "isDragging (onMouseDown ev rc s) = isDragging s
         \<and> draggedAnnotationIndex (onMouseDown ev rc s) = draggedAnnotationIndex s"
  using assms
  by (auto simp: onMouseDown_def Let_def annotation_visuals_def split: option.splits list.splits)

lemma first_marker_hit:
  "\<exists>obj objs. hits_first_marker (pointer centre_click)
       (annotation_visuals (settle (addNewAnnotation new_CoinKiosk))) = obj # objs
     \<and> annotationIndex obj = Some 0"
proof -
  let ?s1 = "settle (addNewAnnotation new_CoinKiosk)"
  have "\<exists>s0. length (annotations s0) = 2 \<and> annotation_visuals ?s1 = annotation_visuals (renderAnnotations s0)"
    by (rule exI[of _ "new_CoinKiosk\<lparr>vectors := (vectors new_CoinKiosk)(nextAddr new_CoinKiosk := Vector3 0 0.2 1),
                          nextAddr := Suc (nextAddr new_CoinKiosk),
                          annotations := annotations new_CoinKiosk @
                            [\<lparr> position = nextAddr new_CoinKiosk,
                               label = ''Annotation '' @ string_of_nat (length (annotations new_CoinKiosk) + 1),
                               description = Some ''Add your annotation description here.'',
                               color = ''#8b7ba8'', shape = ''sphere'', marker = None, mesh = None \<rparr>]\<rparr>"])
       (simp add: addNewAnnotation_def addAnnotation_def openEditModal_def Let_def settle_def
          annotation_visuals_def annotations_new split: option.splits)
  then obtain s0 where "length (annotations s0) = 2"
    and v: "annotation_visuals ?s1 = annotation_visuals (renderAnnotations s0)" by blast
  then have "\<exists>obj \<in> set (annotation_visuals ?s1). annotationIndex obj = Some 0"
    using marker_in_visuals[of 0 s0] by simp
  then have "hits_first_marker (pointer centre_click) (annotation_visuals ?s1) \<noteq> []"
    by (auto simp: hits_first_marker_def filter_empty_conv)
  then obtain obj objs where
    h: "hits_first_marker (pointer centre_click) (annotation_visuals ?s1) = obj # objs"
    by (cases "hits_first_marker (pointer centre_click) (annotation_visuals ?s1)") auto
  then have "obj \<in> set (hits_first_marker (pointer centre_click) (annotation_visuals ?s1))" by simp
  then have "annotationIndex obj = Some 0" by (simp add: hits_first_marker_def)
  with h show ?thesis by blast
qed

theorem mouse_down_elsewhere_starts_no_drag_witness:
  "currentEditIndex new_CoinKiosk = None
   \<and> \<not> isDragging (onMouseDown centre_click hits_second_marker new_CoinKiosk)
   \<and> currentEditIndex (settle (addNewAnnotation new_CoinKiosk)) = Some 1
   \<and> \<not> isDragging (onMouseDown centre_click hits_first_marker (settle (addNewAnnotation new_CoinKiosk)))"
proof -
  have n: "currentEditIndex new_CoinKiosk = None" "\<not> isDragging new_CoinKiosk"
    by (simp_all add: new_CoinKiosk_def setupAnnotations_def Let_def render_keeps_controller
        initial_fields_def)
  let ?s1 = "settle (addNewAnnotation new_CoinKiosk)"
  have c: "currentEditIndex ?s1 = Some 1" "\<not> isDragging ?s1"
    using n by (simp_all add: addNewAnnotation_editor addNewAnnotation_drag annotations_new)
  from first_marker_hit obtain obj objs where
    "hits_first_marker (pointer centre_click) (annotation_visuals ?s1) = obj # objs"
    "annotationIndex obj = Some 0" by blast
  then have "\<exists>obj objs. hits_first_marker (pointer centre_click) (annotation_visuals ?s1) = obj # objs
                 \<and> annotationIndex obj \<noteq> currentEditIndex ?s1"
    using c by auto
  then have "isDragging (onMouseDown centre_click hits_first_marker ?s1) = isDragging ?s1"
    using mouse_down_elsewhere_starts_no_drag[of ?s1 hits_first_marker centre_click] by blast
  moreover have "isDragging (onMouseDown centre_click hits_second_marker new_CoinKiosk) = isDragging new_CoinKiosk"
    using mouse_down_elsewhere_starts_no_drag[of new_CoinKiosk hits_second_marker centre_click] n
    by blast
  ultimately show ?thesis using n c by simp
qed

text \<open>
  When a mouse-down starts a drag, the editor is open and the dragged index is the index
  open in the editor.
\<close>

theorem drag_starts_on_edited_index:
  assumes "\<not> isDragging s" and "isDragging (onMouseDown ev rc s)"
  shows "currentEditIndex s \<noteq> None
         \<and> draggedAnnotationIndex (onMouseDown ev rc s) = currentEditIndex s
         \<and> currentEditIndex (onMouseDown ev rc s) = currentEditIndex s"
  using assms
  by (auto simp: onMouseDown_def Let_def split: option.splits list.splits if_splits)

theorem drag_starts_on_edited_index_witness:
  "\<not> isDragging (run [ClickAdd])
   \<and> isDragging (onMouseDown centre_click hits_second_marker (run [ClickAdd]))
   \<and> draggedAnnotationIndex (onMouseDown centre_click hits_second_marker (run [ClickAdd])) = Some 1
   \<and> currentEditIndex (run [ClickAdd]) = Some 1"
proof -
  have n: "\<not> isDragging new_CoinKiosk"
    by (simp add: new_CoinKiosk_def setupAnnotations_def Let_def render_keeps_controller
        initial_fields_def)
  have a: "\<not> isDragging (run [ClickAdd])"
    using n by (simp add: run_def addNewAnnotation_drag)
  have c: "currentEditIndex (run [ClickAdd]) = Some 1"
    by (simp add: run_def addNewAnnotation_editor annotations_new)
  have r: "onMouseDown centre_click hits_second_marker (run [ClickAdd]) = run drag_started"
    by (simp add: run_def drag_started_def)
  have d: "isDragging (onMouseDown centre_click hits_second_marker (run [ClickAdd]))"
    by (simp add: r drag_started_facts)
  from drag_starts_on_edited_index[OF a d] a c d show ?thesis by simp
qed

end
